theory Spec2Isabelle
  imports Main
begin

section \<open>Pages, stages and errors\<close>

text \<open>
  A shallow embedding of the scheduling layer of \<^verbatim>\<open>MainWindow.cpp\<close>: the two composite
  task builders, the interactive and batch queues, the worker pool refill loops, the
  completion handler \<^verbatim>\<open>filterResult\<close>, the stage selection handler and the thumbnail
  sequence reset.

  An \<^verbatim>\<open>ImageId\<close> is null when its file path is null; a \<^verbatim>\<open>PageId\<close> is an image and a
  sub-page tag and is null when its image is; a \<^verbatim>\<open>PageInfo\<close> is a \<^verbatim>\<open>PageId\<close> with image
  metadata that none of the functions below reads, so it is identified with its id
  (\<^verbatim>\<open>page.id()\<close> is the identity).
\<close>

datatype ImageId = NullImage | Image nat

datatype SubPage = SINGLE_PAGE | LEFT_PAGE | RIGHT_PAGE

datatype PageId = PageId (imageId: ImageId) (subPage: SubPage)

type_synonym PageInfo = PageId

definition isNull :: "PageId \<Rightarrow> bool" where
  "isNull p = (imageId p = NullImage)"

text \<open>The default constructed \<^verbatim>\<open>PageInfo()\<close>.\<close>

definition nullPage :: PageInfo where
  "nullPage = PageId NullImage SINGLE_PAGE"

text \<open>
  The failures of the source are values: a failed \<^verbatim>\<open>assert\<close>, a call through a null
  smart pointer, an index outside the filter list.
\<close>

datatype error = AssertionFailed | NullPointer | IndexOutOfRange

text \<open>The six filters owned by the \<^verbatim>\<open>StageSequence\<close>.\<close>

datatype Filter =
    FixOrientationFilter
  | PageSplitFilter
  | DeskewFilter
  | SelectContentFilter
  | PageLayoutFilter
  | OutputFilter

text \<open>
  Modelled from the spec: \<^verbatim>\<open>StageSequence\<close> is not among the sources; the indices its
  accessors return are taken from the data model, "Stage index: integer 0..5 fixed order:
  fix-orientation, page-split, deskew, select-content, page-layout, output".
\<close>

definition fixOrientationFilterIdx :: int where
  "fixOrientationFilterIdx = 0"

definition pageSplitFilterIdx :: int where
  "pageSplitFilterIdx = 1"

definition deskewFilterIdx :: int where
  "deskewFilterIdx = 2"

definition selectContentFilterIdx :: int where
  "selectContentFilterIdx = 3"

definition pageLayoutFilterIdx :: int where
  "pageLayoutFilterIdx = 4"

definition outputFilterIdx :: int where
  "outputFilterIdx = 5"

lemmas filterIdx_defs =
  fixOrientationFilterIdx_def pageSplitFilterIdx_def deskewFilterIdx_def
  selectContentFilterIdx_def pageLayoutFilterIdx_def outputFilterIdx_def

fun filterIdx :: "Filter \<Rightarrow> int" where
  "filterIdx FixOrientationFilter = fixOrientationFilterIdx"
| "filterIdx PageSplitFilter = pageSplitFilterIdx"
| "filterIdx DeskewFilter = deskewFilterIdx"
| "filterIdx SelectContentFilter = selectContentFilterIdx"
| "filterIdx PageLayoutFilter = pageLayoutFilterIdx"
| "filterIdx OutputFilter = outputFilterIdx"

section \<open>Task chains\<close>

text \<open>
  Each stage has its own task class; the task of a stage holds an \<^verbatim>\<open>intrusive_ptr\<close> to
  the task of the next stage, null when the chain ends there. A task is modelled by the
  arguments its filter's \<^verbatim>\<open>createTask\<close> received: page, next task, batch flag, debug flag
  (the thumbnail cache and the file name generator, the same for every task, are left out).
  \<^verbatim>\<open>fix_orientation::Filter::createTask\<close> takes no debug flag.
\<close>

datatype OutputTask =
  OutputTask (otPage: PageId) (otBatch: bool) (otDebug: bool)

datatype PageLayoutTask =
  PageLayoutTask (plPage: PageId) (plNext: "OutputTask option") (plBatch: bool) (plDebug: bool)

datatype SelectContentTask =
  SelectContentTask (scPage: PageId) (scNext: "PageLayoutTask option") (scBatch: bool) (scDebug: bool)

datatype DeskewTask =
  DeskewTask (dsPage: PageId) (dsNext: "SelectContentTask option") (dsBatch: bool) (dsDebug: bool)

datatype PageSplitTask =
  PageSplitTask (psPage: PageInfo) (psNext: "DeskewTask option") (psBatch: bool) (psDebug: bool)

datatype FixOrientationTask =
  FixOrientationTask (foPage: PageId) (foNext: "PageSplitTask option") (foBatch: bool)

datatype TaskType = INTERACTIVE | BATCH

text \<open>
  The \<^verbatim>\<open>LoadFileTask\<close> a composite task is wrapped in, a \<^verbatim>\<open>BackgroundTask\<close>. Two task
  objects with the same contents are still two objects: \<open>addr\<close> is the address
  \<^verbatim>\<open>make_intrusive\<close> allocated, and a \<^verbatim>\<open>BackgroundTaskPtr\<close> is null or such an object.
  The cancellation flag, the one mutable field, lives in the store of the main window below.
\<close>

type_synonym TaskAddr = nat

record BackgroundTask =
  addr :: TaskAddr
  taskType :: TaskType
  taskPage :: PageInfo
  chain :: FixOrientationTask

type_synonym BackgroundTaskPtr = "BackgroundTask option"

text \<open>The cache driven counterparts hold nothing but the next task.\<close>

datatype OutputCacheDrivenTask = OutputCacheDrivenTask

datatype PageLayoutCacheDrivenTask =
  PageLayoutCacheDrivenTask (plcNext: "OutputCacheDrivenTask option")

datatype SelectContentCacheDrivenTask =
  SelectContentCacheDrivenTask (sccNext: "PageLayoutCacheDrivenTask option")

datatype DeskewCacheDrivenTask =
  DeskewCacheDrivenTask (dscNext: "SelectContentCacheDrivenTask option")

datatype PageSplitCacheDrivenTask =
  PageSplitCacheDrivenTask (pscNext: "DeskewCacheDrivenTask option")

datatype FixOrientationCacheDrivenTask =
  FixOrientationCacheDrivenTask (focNext: "PageSplitCacheDrivenTask option")

type_synonym CompositeCacheDrivenTask = FixOrientationCacheDrivenTask

section \<open>Calls on collaborators\<close>

text \<open>
  The queues, the worker pool, the thumbnail sequence, the propagators, the filter list
  and the filter results are objects of classes outside \<^verbatim>\<open>MainWindow.cpp\<close>. Every call
  the modelled functions make on one of them that changes it is recorded, in program
  order, in a log. Calls that only rearrange Qt widgets (scroll bars, the focus button,
  the status bar, the image and options frames, the sort options) touch nothing modelled
  here and are left out.
\<close>

datatype SelectionAction = KEEP_SELECTION | RESET_SELECTION

datatype QueueId = InteractiveQueue | BatchQueue

datatype Call =
    CreateTask Filter bool "bool option"
  | CreateCacheDrivenTask Filter
  | CancelAndClear QueueId
  | AddProcessingTask QueueId PageInfo TaskAddr
  | TakeForProcessing QueueId
  | ProcessingFinished QueueId TaskAddr
  | SubmitTask TaskAddr
  | PropagateContentBox
  | PropagateOrientation
  | SetThumbnailFactory bool
  | ThumbReset SelectionAction
  | SetSelection PageId
  | FilterSelected Filter
  | LoadDefaultSettings Filter PageInfo
  | PreUpdateUI Filter PageInfo
  | SelectRow int
  | UpdateUI

section \<open>The composite task builders\<close>

text \<open>
  The local variables of \<^verbatim>\<open>createCompositeTask\<close>: the six task pointers, all null at
  first, the \<^verbatim>\<open>debug\<close> parameter, which the function overwrites, and the
  \<^verbatim>\<open>createTask\<close> calls made so far.
\<close>

record TaskLocals =
  fix_orientation_task :: "FixOrientationTask option"
  page_split_task :: "PageSplitTask option"
  deskew_task :: "DeskewTask option"
  select_content_task :: "SelectContentTask option"
  page_layout_task :: "PageLayoutTask option"
  output_task :: "OutputTask option"
  debug_flag :: bool
  created :: "Call list"

definition createCompositeTask ::
  "TaskAddr \<Rightarrow> PageInfo \<Rightarrow> int \<Rightarrow> bool \<Rightarrow> bool \<Rightarrow> Call list \<times> (error + BackgroundTask)" where
  "createCompositeTask a page last_filter_idx batch debug_arg =
    (let l = \<lparr>fix_orientation_task = None, page_split_task = None, deskew_task = None,
               select_content_task = None, page_layout_task = None, output_task = None,
               debug_flag = debug_arg, created = []\<rparr>;
         l = (if batch then l\<lparr>debug_flag := False\<rparr> else l);
         l = (if last_filter_idx \<ge> outputFilterIdx
              then l\<lparr>output_task := Some (OutputTask page batch (debug_flag l)),
                     created := created l @ [CreateTask OutputFilter batch (Some (debug_flag l))],
                     debug_flag := False\<rparr>
              else l);
         l = (if last_filter_idx \<ge> pageLayoutFilterIdx
              then l\<lparr>page_layout_task :=
                       Some (PageLayoutTask page (output_task l) batch (debug_flag l)),
                     created := created l @ [CreateTask PageLayoutFilter batch (Some (debug_flag l))],
                     debug_flag := False\<rparr>
              else l);
         l = (if last_filter_idx \<ge> selectContentFilterIdx
              then l\<lparr>select_content_task :=
                       Some (SelectContentTask page (page_layout_task l) batch (debug_flag l)),
                     created := created l @ [CreateTask SelectContentFilter batch (Some (debug_flag l))],
                     debug_flag := False\<rparr>
              else l);
         l = (if last_filter_idx \<ge> deskewFilterIdx
              then l\<lparr>deskew_task :=
                       Some (DeskewTask page (select_content_task l) batch (debug_flag l)),
                     created := created l @ [CreateTask DeskewFilter batch (Some (debug_flag l))],
                     debug_flag := False\<rparr>
              else l);
         l = (if last_filter_idx \<ge> pageSplitFilterIdx
              then l\<lparr>page_split_task :=
                       Some (PageSplitTask page (deskew_task l) batch (debug_flag l)),
                     created := created l @ [CreateTask PageSplitFilter batch (Some (debug_flag l))],
                     debug_flag := False\<rparr>
              else l);
         l = (if last_filter_idx \<ge> fixOrientationFilterIdx
              then l\<lparr>fix_orientation_task :=
                       Some (FixOrientationTask page (page_split_task l) batch),
                     created := created l @ [CreateTask FixOrientationFilter batch None],
                     debug_flag := False\<rparr>
              else l)
     in (created l,
         case fix_orientation_task l of
           None \<Rightarrow> Inl AssertionFailed
         | Some t \<Rightarrow>
             Inr \<lparr>addr = a, taskType = (if batch then BATCH else INTERACTIVE),
                  taskPage = page, chain = t\<rparr>))"

record CacheDrivenLocals =
  cd_fix_orientation_task :: "FixOrientationCacheDrivenTask option"
  cd_page_split_task :: "PageSplitCacheDrivenTask option"
  cd_deskew_task :: "DeskewCacheDrivenTask option"
  cd_select_content_task :: "SelectContentCacheDrivenTask option"
  cd_page_layout_task :: "PageLayoutCacheDrivenTask option"
  cd_output_task :: "OutputCacheDrivenTask option"
  cd_created :: "Call list"

definition createCompositeCacheDrivenTask ::
  "int \<Rightarrow> Call list \<times> (error + CompositeCacheDrivenTask)" where
  "createCompositeCacheDrivenTask last_filter_idx =
    (let l = \<lparr>cd_fix_orientation_task = None, cd_page_split_task = None,
               cd_deskew_task = None, cd_select_content_task = None,
               cd_page_layout_task = None, cd_output_task = None, cd_created = []\<rparr>;
         l = (if last_filter_idx \<ge> outputFilterIdx
              then l\<lparr>cd_output_task := Some OutputCacheDrivenTask,
                     cd_created := cd_created l @ [CreateCacheDrivenTask OutputFilter]\<rparr>
              else l);
         l = (if last_filter_idx \<ge> pageLayoutFilterIdx
              then l\<lparr>cd_page_layout_task := Some (PageLayoutCacheDrivenTask (cd_output_task l)),
                     cd_created := cd_created l @ [CreateCacheDrivenTask PageLayoutFilter]\<rparr>
              else l);
         l = (if last_filter_idx \<ge> selectContentFilterIdx
              then l\<lparr>cd_select_content_task :=
                       Some (SelectContentCacheDrivenTask (cd_page_layout_task l)),
                     cd_created := cd_created l @ [CreateCacheDrivenTask SelectContentFilter]\<rparr>
              else l);
         l = (if last_filter_idx \<ge> deskewFilterIdx
              then l\<lparr>cd_deskew_task := Some (DeskewCacheDrivenTask (cd_select_content_task l)),
                     cd_created := cd_created l @ [CreateCacheDrivenTask DeskewFilter]\<rparr>
              else l);
         l = (if last_filter_idx \<ge> pageSplitFilterIdx
              then l\<lparr>cd_page_split_task := Some (PageSplitCacheDrivenTask (cd_deskew_task l)),
                     cd_created := cd_created l @ [CreateCacheDrivenTask PageSplitFilter]\<rparr>
              else l);
         l = (if last_filter_idx \<ge> fixOrientationFilterIdx
              then l\<lparr>cd_fix_orientation_task :=
                       Some (FixOrientationCacheDrivenTask (cd_page_split_task l)),
                     cd_created := cd_created l @ [CreateCacheDrivenTask FixOrientationFilter]\<rparr>
              else l)
     in (cd_created l,
         case cd_fix_orientation_task l of
           None \<Rightarrow> Inl AssertionFailed
         | Some t \<Rightarrow> Inr t))"

text \<open>
  The stages of a chain, read off by following the next pointers from its head, and the
  stages whose \<^verbatim>\<open>createTask\<close> (or \<^verbatim>\<open>createCacheDrivenTask\<close>) a log of calls names, in
  call order.
\<close>

fun outputStages :: "OutputTask option \<Rightarrow> int list" where
  "outputStages None = []"
| "outputStages (Some t) = [outputFilterIdx]"

fun pageLayoutStages :: "PageLayoutTask option \<Rightarrow> int list" where
  "pageLayoutStages None = []"
| "pageLayoutStages (Some t) = pageLayoutFilterIdx # outputStages (plNext t)"

fun selectContentStages :: "SelectContentTask option \<Rightarrow> int list" where
  "selectContentStages None = []"
| "selectContentStages (Some t) = selectContentFilterIdx # pageLayoutStages (scNext t)"

fun deskewStages :: "DeskewTask option \<Rightarrow> int list" where
  "deskewStages None = []"
| "deskewStages (Some t) = deskewFilterIdx # selectContentStages (dsNext t)"

fun pageSplitStages :: "PageSplitTask option \<Rightarrow> int list" where
  "pageSplitStages None = []"
| "pageSplitStages (Some t) = pageSplitFilterIdx # deskewStages (psNext t)"

definition chainStages :: "FixOrientationTask \<Rightarrow> int list" where
  "chainStages t = fixOrientationFilterIdx # pageSplitStages (foNext t)"

fun outputCacheDrivenStages :: "OutputCacheDrivenTask option \<Rightarrow> int list" where
  "outputCacheDrivenStages None = []"
| "outputCacheDrivenStages (Some t) = [outputFilterIdx]"

fun pageLayoutCacheDrivenStages :: "PageLayoutCacheDrivenTask option \<Rightarrow> int list" where
  "pageLayoutCacheDrivenStages None = []"
| "pageLayoutCacheDrivenStages (Some t) =
     pageLayoutFilterIdx # outputCacheDrivenStages (plcNext t)"

fun selectContentCacheDrivenStages :: "SelectContentCacheDrivenTask option \<Rightarrow> int list" where
  "selectContentCacheDrivenStages None = []"
| "selectContentCacheDrivenStages (Some t) =
     selectContentFilterIdx # pageLayoutCacheDrivenStages (sccNext t)"

fun deskewCacheDrivenStages :: "DeskewCacheDrivenTask option \<Rightarrow> int list" where
  "deskewCacheDrivenStages None = []"
| "deskewCacheDrivenStages (Some t) =
     deskewFilterIdx # selectContentCacheDrivenStages (dscNext t)"

fun pageSplitCacheDrivenStages :: "PageSplitCacheDrivenTask option \<Rightarrow> int list" where
  "pageSplitCacheDrivenStages None = []"
| "pageSplitCacheDrivenStages (Some t) =
     pageSplitFilterIdx # deskewCacheDrivenStages (pscNext t)"

definition cacheDrivenChainStages :: "FixOrientationCacheDrivenTask \<Rightarrow> int list" where
  "cacheDrivenChainStages t = fixOrientationFilterIdx # pageSplitCacheDrivenStages (focNext t)"

fun createdStage :: "Call \<Rightarrow> int list" where
  "createdStage (CreateTask f b d) = [filterIdx f]"
| "createdStage (CreateCacheDrivenTask f) = [filterIdx f]"
| "createdStage c = []"

definition createdStages :: "Call list \<Rightarrow> int list" where
  "createdStages cs = concat (map createdStage cs)"

text \<open>The filters whose \<^verbatim>\<open>createTask\<close> was handed a true debug flag.\<close>

fun debugReceiver :: "Call \<Rightarrow> Filter list" where
  "debugReceiver (CreateTask f b (Some True)) = [f]"
| "debugReceiver c = []"

definition debugReceivers :: "Call list \<Rightarrow> Filter list" where
  "debugReceivers cs = concat (map debugReceiver cs)"

section \<open>The processing task queue\<close>

text \<open>
  Modelled from the spec: \<^verbatim>\<open>ProcessingTaskQueue\<close> is not among the sources. An entry is
  "{page key, BackgroundTask, status \<in> {Pending, Processing}}", the queue an "ordered
  collection of pending/in-flight tasks keyed by page identity".
\<close>

datatype EntryStatus = Pending | Processing

record QueueEntry =
  entryPage :: PageInfo
  entryTask :: BackgroundTask
  entryStatus :: EntryStatus

type_synonym ProcessingTaskQueue = "QueueEntry list"

text \<open>
  Modelled from the spec: "\<^verbatim>\<open>addProcessingTask(page, chainedTask)\<close> registers a pending
  entry for a page; fails (no-op) if a pending/in-flight entry for that page already
  exists".
\<close>

definition addProcessingTask ::
  "PageInfo \<Rightarrow> BackgroundTask \<Rightarrow> ProcessingTaskQueue \<Rightarrow> ProcessingTaskQueue" where
  "addProcessingTask page task q =
     (if page \<in> set (map entryPage q) then q
      else q @ [\<lparr>entryPage = page, entryTask = task, entryStatus = Pending\<rparr>])"

text \<open>
  Modelled from the spec: "\<^verbatim>\<open>takeForProcessing()\<close> pops and returns one Pending entry,
  transitioning it to Processing; returns empty if none pending". The entry taken is the
  first pending one in queue order.
\<close>

fun takeForProcessing :: "ProcessingTaskQueue \<Rightarrow> BackgroundTaskPtr \<times> ProcessingTaskQueue" where
  "takeForProcessing [] = (None, [])"
| "takeForProcessing (e # q) =
     (if entryStatus e = Pending then (Some (entryTask e), e\<lparr>entryStatus := Processing\<rparr> # q)
      else (fst (takeForProcessing q), e # snd (takeForProcessing q)))"

text \<open>
  Modelled from the spec: "\<^verbatim>\<open>processingFinished(task)\<close> transitions a Processing entry to
  removed regardless of success/cancellation". The entry is the one holding that task
  object.
\<close>

definition processingFinished ::
  "BackgroundTask \<Rightarrow> ProcessingTaskQueue \<Rightarrow> ProcessingTaskQueue" where
  "processingFinished task q =
     filter (\<lambda>e. \<not> (entryStatus e = Processing \<and> addr (entryTask e) = addr task)) q"

text \<open>
  Modelled from the spec: "\<^verbatim>\<open>cancelAndClear()\<close> marks every entry's cancellation flag and
  empties the queue"; "\<^verbatim>\<open>cancelAndRemove(pageSet)\<close> is the scoped version". Both return the
  addresses of the tasks whose flag they set, and the queue that is left.
\<close>

definition cancelAndClear :: "ProcessingTaskQueue \<Rightarrow> TaskAddr list \<times> ProcessingTaskQueue" where
  "cancelAndClear q = (map (\<lambda>e. addr (entryTask e)) q, [])"

definition cancelAndRemove ::
  "PageId set \<Rightarrow> ProcessingTaskQueue \<Rightarrow> TaskAddr list \<times> ProcessingTaskQueue" where
  "cancelAndRemove pages q =
     (map (\<lambda>e. addr (entryTask e)) (filter (\<lambda>e. entryPage e \<in> pages) q),
      filter (\<lambda>e. entryPage e \<notin> pages) q)"

text \<open>Modelled from the spec: "\<^verbatim>\<open>allProcessed()\<close> reports whether the queue is empty".\<close>

definition allProcessed :: "ProcessingTaskQueue \<Rightarrow> bool" where
  "allProcessed q = (q = [])"

definition pendingEntries :: "ProcessingTaskQueue \<Rightarrow> QueueEntry list" where
  "pendingEntries q = filter (\<lambda>e. entryStatus e = Pending) q"

section \<open>The worker thread pool\<close>

text \<open>
  Modelled from the spec: \<^verbatim>\<open>WorkerThreadPool\<close> is not among the sources.
  "\<^verbatim>\<open>submitTask(task)\<close> enqueues a task for execution on one of N fixed worker threads;
  \<^verbatim>\<open>hasSpareCapacity()\<close> reports whether fewer than N tasks are currently executing".
  A task leaves \<open>executing\<close> when its worker is done with it, before the completion
  handler runs; that is the pool's own doing and no function below does it.
\<close>

record WorkerThreadPool =
  numThreads :: nat
  executing :: "BackgroundTask list"

definition submitTask :: "BackgroundTask \<Rightarrow> WorkerThreadPool \<Rightarrow> WorkerThreadPool" where
  "submitTask task w = w\<lparr>executing := executing w @ [task]\<rparr>"

definition hasSpareCapacity :: "WorkerThreadPool \<Rightarrow> bool" where
  "hasSpareCapacity w = (length (executing w) < numThreads w)"

section \<open>The thumbnail sequence\<close>

text \<open>
  Modelled from the spec: \<^verbatim>\<open>ThumbnailSequence\<close> is not among the sources. The spec speaks
  of the "page-sequence order starting at the current selection leader", "not restarting
  from page 0": the sequence is the list of its pages in display order with a selection
  leader, null when nothing is selected. \<^verbatim>\<open>nextPage\<close> is the page after the given one and
  null after the last, \<^verbatim>\<open>setSelection\<close> succeeds on a page of the sequence and fails,
  changing nothing, on any other.
\<close>

record ThumbnailSequence =
  tsItems :: "PageInfo list"
  tsLeader :: PageInfo
  tsFactory :: "CompositeCacheDrivenTask option"

definition selectionLeader :: "ThumbnailSequence \<Rightarrow> PageInfo" where
  "selectionLeader ts = tsLeader ts"

definition firstPage :: "ThumbnailSequence \<Rightarrow> PageInfo" where
  "firstPage ts = (case tsItems ts of [] \<Rightarrow> nullPage | p # ps \<Rightarrow> p)"

definition lastPage :: "ThumbnailSequence \<Rightarrow> PageInfo" where
  "lastPage ts = (if tsItems ts = [] then nullPage else last (tsItems ts))"

fun pageAfter :: "PageInfo list \<Rightarrow> PageId \<Rightarrow> PageInfo" where
  "pageAfter [] p = nullPage"
| "pageAfter [q] p = nullPage"
| "pageAfter (q # r # ps) p = (if q = p then r else pageAfter (r # ps) p)"

definition nextPage :: "ThumbnailSequence \<Rightarrow> PageId \<Rightarrow> PageInfo" where
  "nextPage ts p = pageAfter (tsItems ts) p"

definition thumbReset ::
  "PageInfo list \<Rightarrow> SelectionAction \<Rightarrow> ThumbnailSequence \<Rightarrow> ThumbnailSequence" where
  "thumbReset pages selection_action ts =
     ts\<lparr>tsItems := pages,
        tsLeader := (if selection_action = KEEP_SELECTION \<and> tsLeader ts \<in> set pages
                     then tsLeader ts else nullPage)\<rparr>"

section \<open>The main window\<close>

text \<open>
  The members of \<^verbatim>\<open>MainWindow\<close> the modelled functions read or write. A smart pointer
  whose target is not modelled is a flag, true when it is not null. \<open>m_pages\<close> is the
  page sequence of the project in the current view and order, \<open>m_outDir\<close> the output
  directory of \<^verbatim>\<open>m_outFileNameGen\<close>.

  Four fields are not members. \<open>cancelled\<close> is the store of the cancellation flags
  of the task objects, by address, and \<open>nextAddr\<close> the address the next allocation
  returns. \<open>calls\<close> is the log of calls on collaborators. \<open>readyForOutput\<close> and
  \<open>queueSelectedPage\<close> stand for what \<^verbatim>\<open>checkReadyForOutput\<close> of the page layout filter
  and \<^verbatim>\<open>ProcessingTaskQueue::selectedPage\<close> return, about which nothing is assumed.
\<close>

record MainWindow =
  m_pages :: "PageInfo list"
  m_outDir :: string
  m_thumbnailCache :: bool
  m_thumbSequence :: ThumbnailSequence
  m_selectedPage :: PageId
  m_curFilter :: int
  m_ignoreSelectionChanges :: int
  m_debug :: bool
  m_interactiveQueue :: ProcessingTaskQueue
  m_batchQueue :: "ProcessingTaskQueue option"
  m_workerThreadPool :: WorkerThreadPool
  m_contentBoxPropagator :: bool
  m_pageOrientationPropagator :: bool
  cancelled :: "TaskAddr set"
  nextAddr :: TaskAddr
  calls :: "Call list"
  readyForOutput :: "PageId \<Rightarrow> bool"
  queueSelectedPage :: "ProcessingTaskQueue \<Rightarrow> PageInfo"

text \<open>What \<^verbatim>\<open>result->filter()\<close> returns: the filter a result comes from, or null.\<close>

record FilterResult =
  resultFilter :: "Filter option"

datatype MainAreaAction = UPDATE_MAIN_AREA | CLEAR_MAIN_AREA

definition logCall :: "Call \<Rightarrow> MainWindow \<Rightarrow> MainWindow" where
  "logCall c s = s\<lparr>calls := calls s @ [c]\<rparr>"

definition logCalls :: "Call list \<Rightarrow> MainWindow \<Rightarrow> MainWindow" where
  "logCalls cs s = s\<lparr>calls := calls s @ cs\<rparr>"

text \<open>
  Modelled from the spec: \<^verbatim>\<open>StageSequence::filterAt\<close>, \<^verbatim>\<open>findFilter\<close> and \<^verbatim>\<open>count\<close>, over
  the six stages in their fixed order. \<^verbatim>\<open>findFilter\<close> returns -1 for a filter that is not
  in the sequence, as the assertion in \<^verbatim>\<open>filterResult\<close> expects; a null pointer is none
  of the six.
\<close>

definition allFilters :: "Filter list" where
  "allFilters = [FixOrientationFilter, PageSplitFilter, DeskewFilter, SelectContentFilter,
                 PageLayoutFilter, OutputFilter]"

definition filterAt :: "int \<Rightarrow> error + Filter" where
  "filterAt idx =
     (if 0 \<le> idx \<and> idx < int (length allFilters) then Inr (allFilters ! nat idx)
      else Inl IndexOutOfRange)"

definition findFilter :: "Filter option \<Rightarrow> int" where
  "findFilter f = (case f of None \<Rightarrow> -1 | Some g \<Rightarrow> filterIdx g)"

definition isBatchProcessingInProgress :: "MainWindow \<Rightarrow> bool" where
  "isBatchProcessingInProgress s = (m_batchQueue s \<noteq> None)"

definition isProjectLoaded :: "MainWindow \<Rightarrow> bool" where
  "isProjectLoaded s = (m_outDir s \<noteq> [])"

definition isBelowSelectContent :: "int \<Rightarrow> bool" where
  "isBelowSelectContent filter_idx = (filter_idx > selectContentFilterIdx)"

definition isBelowFixOrientation :: "int \<Rightarrow> bool" where
  "isBelowFixOrientation filter_idx = (filter_idx > fixOrientationFilterIdx)"

definition isOutputFilter :: "int \<Rightarrow> bool" where
  "isOutputFilter filter_idx = (filter_idx = outputFilterIdx)"

subsection \<open>Calls on the queues, the pool and the thumbnail sequence\<close>

text \<open>
  Each call updates the object in the state, sets the cancellation flags the queue sets,
  and is logged.
\<close>

definition interactiveCancelAndClear :: "MainWindow \<Rightarrow> MainWindow" where
  "interactiveCancelAndClear s =
     logCall (CancelAndClear InteractiveQueue)
       (s\<lparr>cancelled := cancelled s \<union> set (fst (cancelAndClear (m_interactiveQueue s))),
          m_interactiveQueue := snd (cancelAndClear (m_interactiveQueue s))\<rparr>)"

definition batchCancelAndClear :: "MainWindow \<Rightarrow> error + MainWindow" where
  "batchCancelAndClear s =
     (case m_batchQueue s of
        None \<Rightarrow> Inl NullPointer
      | Some q \<Rightarrow>
          Inr (logCall (CancelAndClear BatchQueue)
                (s\<lparr>cancelled := cancelled s \<union> set (fst (cancelAndClear q)),
                   m_batchQueue := Some (snd (cancelAndClear q))\<rparr>)))"

definition interactiveProcessingFinished :: "BackgroundTask \<Rightarrow> MainWindow \<Rightarrow> MainWindow" where
  "interactiveProcessingFinished task s =
     logCall (ProcessingFinished InteractiveQueue (addr task))
       (s\<lparr>m_interactiveQueue := processingFinished task (m_interactiveQueue s)\<rparr>)"

definition batchProcessingFinished :: "BackgroundTask \<Rightarrow> MainWindow \<Rightarrow> error + MainWindow" where
  "batchProcessingFinished task s =
     (case m_batchQueue s of
        None \<Rightarrow> Inl NullPointer
      | Some q \<Rightarrow>
          Inr (logCall (ProcessingFinished BatchQueue (addr task))
                (s\<lparr>m_batchQueue := Some (processingFinished task q)\<rparr>)))"

definition batchTakeForProcessing :: "MainWindow \<Rightarrow> error + BackgroundTaskPtr \<times> MainWindow" where
  "batchTakeForProcessing s =
     (case m_batchQueue s of
        None \<Rightarrow> Inl NullPointer
      | Some q \<Rightarrow>
          Inr (fst (takeForProcessing q),
               logCall (TakeForProcessing BatchQueue)
                 (s\<lparr>m_batchQueue := Some (snd (takeForProcessing q))\<rparr>)))"

definition poolSubmitTask :: "BackgroundTask \<Rightarrow> MainWindow \<Rightarrow> MainWindow" where
  "poolSubmitTask task s =
     logCall (SubmitTask (addr task))
       (s\<lparr>m_workerThreadPool := submitTask task (m_workerThreadPool s)\<rparr>)"

definition setSelection :: "PageId \<Rightarrow> MainWindow \<Rightarrow> bool \<times> MainWindow" where
  "setSelection p s =
     (if p \<in> set (tsItems (m_thumbSequence s))
      then (True, logCall (SetSelection p)
                    (s\<lparr>m_thumbSequence := (m_thumbSequence s)\<lparr>tsLeader := p\<rparr>\<rparr>))
      else (False, logCall (SetSelection p) s))"

definition loadDefaultSettings :: "PageInfo \<Rightarrow> MainWindow \<Rightarrow> MainWindow" where
  "loadDefaultSettings page s = logCalls (map (\<lambda>f. LoadDefaultSettings f page) allFilters) s"

subsection \<open>resetThumbSequence\<close>

text \<open>
  Lines 609 to 623 of \<^verbatim>\<open>resetThumbSequence\<close>: the candidates for the new selection, each
  tried only when the one before it was not found.
\<close>

definition selectAfterReset :: "MainWindow \<Rightarrow> MainWindow" where
  "selectAfterReset s =
     (let page = m_selectedPage s;
          r = setSelection page s
      in if fst r then snd r
         else let r = setSelection (PageId (imageId page) LEFT_PAGE) (snd r)
           in if fst r then snd r
              else let r = setSelection (PageId (imageId page) RIGHT_PAGE) (snd r)
                in if fst r then snd r
                   else let r = setSelection (PageId (imageId page) SINGLE_PAGE) (snd r)
                     in if fst r then snd r
                        else snd (setSelection (firstPage (m_thumbSequence (snd r))) (snd r)))"

text \<open>
  \<^verbatim>\<open>m_pages->numImages()\<close> is zero exactly when the project has no page. The page order
  provider only orders \<open>m_pages\<close>, which is kept in that order here.
\<close>

definition resetThumbSequence :: "SelectionAction \<Rightarrow> MainWindow \<Rightarrow> error + MainWindow" where
  "resetThumbSequence selection_action s =
     (case (if m_thumbnailCache s
            then (case createCompositeCacheDrivenTask (m_curFilter s) of
                    (cs, Inl e) \<Rightarrow> Inl e
                  | (cs, Inr task) \<Rightarrow>
                      Inr (logCall (SetThumbnailFactory True)
                            ((logCalls cs s)
                               \<lparr>m_thumbSequence :=
                                  (m_thumbSequence s)\<lparr>tsFactory := Some task\<rparr>\<rparr>)))
            else Inr s) of
        Inl e \<Rightarrow> Inl e
      | Inr s \<Rightarrow>
          (let s = logCall (ThumbReset selection_action)
                     (s\<lparr>m_thumbSequence :=
                          thumbReset (m_pages s) selection_action (m_thumbSequence s)\<rparr>)
           in case (if \<not> m_thumbnailCache s
                    then (if m_pages s = []
                          then Inr (logCall (SetThumbnailFactory False)
                                     (s\<lparr>m_thumbSequence :=
                                          (m_thumbSequence s)\<lparr>tsFactory := None\<rparr>\<rparr>))
                          else Inl AssertionFailed)
                    else Inr s) of
                Inl e \<Rightarrow> Inl e
              | Inr s \<Rightarrow>
                  Inr (if selection_action \<noteq> KEEP_SELECTION then selectAfterReset s else s)))"

subsection \<open>loadPageInteractive and updateMainArea\<close>

definition loadPageInteractive :: "PageInfo \<Rightarrow> MainWindow \<Rightarrow> error + MainWindow" where
  "loadPageInteractive page s =
     (if isBatchProcessingInProgress s then Inl AssertionFailed
      else let s = interactiveCancelAndClear s
        in if isOutputFilter (m_curFilter s) \<and> \<not> readyForOutput s page then Inr s
           else let s = loadDefaultSettings page s
             in case (if \<not> isBatchProcessingInProgress s
                      then (case filterAt (m_curFilter s) of
                              Inl e \<Rightarrow> Inl e
                            | Inr f \<Rightarrow> Inr (logCall (PreUpdateUI f page) s))
                      else Inr s) of
                  Inl e \<Rightarrow> Inl e
                | Inr s \<Rightarrow>
                    if \<not> m_thumbnailCache s then Inl AssertionFailed
                    else let s = interactiveCancelAndClear s
                      in case createCompositeTask (nextAddr s) page (m_curFilter s) False
                                (m_debug s) of
                           (cs, Inl e) \<Rightarrow> Inl e
                         | (cs, Inr task) \<Rightarrow>
                             (let s = logCall (AddProcessingTask InteractiveQueue page (addr task))
                                        ((logCalls cs s)
                                           \<lparr>nextAddr := nextAddr s + 1,
                                            m_interactiveQueue :=
                                              addProcessingTask page task (m_interactiveQueue s)\<rparr>);
                                  r = takeForProcessing (m_interactiveQueue s);
                                  s = logCall (TakeForProcessing InteractiveQueue)
                                        (s\<lparr>m_interactiveQueue := snd r\<rparr>)
                              in case fst r of
                                   None \<Rightarrow> Inl NullPointer
                                 | Some t \<Rightarrow> Inr (poolSubmitTask t s)))"

definition updateMainArea :: "MainWindow \<Rightarrow> error + MainWindow" where
  "updateMainArea s =
     (if m_pages s = [] then Inr s
      else if isBatchProcessingInProgress s then Inr s
      else let page = selectionLeader (m_thumbSequence s)
        in if isNull page then Inr s
           else loadPageInteractive page s)"

subsection \<open>Batch processing\<close>

definition stopBatchProcessing :: "MainAreaAction \<Rightarrow> MainWindow \<Rightarrow> error + MainWindow" where
  "stopBatchProcessing main_area s =
     (if \<not> isBatchProcessingInProgress s then Inr s
      else case m_batchQueue s of
        None \<Rightarrow> Inl NullPointer
      | Some q \<Rightarrow>
          (let page = queueSelectedPage s q;
               s = (if \<not> isNull page then snd (setSelection page s) else s)
           in case batchCancelAndClear s of
                Inl e \<Rightarrow> Inl e
              | Inr s \<Rightarrow>
                  (let s = s\<lparr>m_batchQueue := None\<rparr>
                   in case (case main_area of
                              UPDATE_MAIN_AREA \<Rightarrow> updateMainArea s
                            | CLEAR_MAIN_AREA \<Rightarrow> Inr s) of
                        Inl e \<Rightarrow> Inl e
                      | Inr s \<Rightarrow> resetThumbSequence RESET_SELECTION s)))"

text \<open>
  The loop of lines 1101 to 1106 of \<^verbatim>\<open>startBatchProcessing\<close>. It ends when
  \<^verbatim>\<open>nextPage\<close> returns a null page, and need not end for every function \<open>next\<close>.
\<close>

partial_function (option) batchEnqueue ::
  "(PageId \<Rightarrow> PageInfo) \<Rightarrow> PageInfo \<Rightarrow> MainWindow \<Rightarrow> (error + MainWindow) option" where
  "batchEnqueue next page s =
     (if isNull page then Some (Inr s)
      else case createCompositeTask (nextAddr (loadDefaultSettings page s)) page
                  (m_curFilter (loadDefaultSettings page s)) True
                  (m_debug (loadDefaultSettings page s)) of
             (cs, Inl e) \<Rightarrow> Some (Inl e)
           | (cs, Inr task) \<Rightarrow>
               (case m_batchQueue (loadDefaultSettings page s) of
                  None \<Rightarrow> Some (Inl NullPointer)
                | Some q \<Rightarrow>
                    batchEnqueue next (next page)
                      (logCall (AddProcessingTask BatchQueue page (addr task))
                         ((logCalls cs (loadDefaultSettings page s))
                            \<lparr>nextAddr := nextAddr s + 1,
                             m_batchQueue := Some (addProcessingTask page task q)\<rparr>))))"

declare batchEnqueue.simps [code]

text \<open>The pending entries left measure both submit loops.\<close>

definition pendingCount :: "MainWindow \<Rightarrow> nat" where
  "pendingCount s = (case m_batchQueue s of None \<Rightarrow> 0 | Some q \<Rightarrow> length (pendingEntries q))"

lemma takeForProcessing_pending:
  "fst (takeForProcessing q) = Some t \<Longrightarrow>
     length (pendingEntries (snd (takeForProcessing q))) < length (pendingEntries q)"
  by (induction q) (auto simp add: pendingEntries_def)

lemma batchTakeForProcessing_pendingCount:
  assumes "batchTakeForProcessing s = Inr (Some t, s')"
  shows "pendingCount s' < pendingCount s"
proof (cases "m_batchQueue s")
  case None
  with assms show ?thesis
    by (simp add: batchTakeForProcessing_def)
next
  case (Some q)
  with assms have "fst (takeForProcessing q) = Some t"
    and "m_batchQueue s' = Some (snd (takeForProcessing q))"
    by (auto simp add: batchTakeForProcessing_def logCall_def)
  with Some takeForProcessing_pending[of q t] show ?thesis
    by (simp add: pendingCount_def)
qed

lemma pendingCount_poolSubmitTask [simp]:
  "pendingCount (poolSubmitTask t s) = pendingCount s"
  by (simp add: pendingCount_def poolSubmitTask_def logCall_def)

text \<open>
  The loop of lines 1116 to 1121 of \<^verbatim>\<open>startBatchProcessing\<close>, entered with the first task
  taken: submit, leave when the pool is full, take the next, leave when there is none.
\<close>

function batchSubmitLoop :: "BackgroundTask \<Rightarrow> MainWindow \<Rightarrow> error + MainWindow" where
  "batchSubmitLoop task s =
     (if \<not> hasSpareCapacity (m_workerThreadPool (poolSubmitTask task s))
      then Inr (poolSubmitTask task s)
      else case batchTakeForProcessing (poolSubmitTask task s) of
             Inl e \<Rightarrow> Inl e
           | Inr (None, s') \<Rightarrow> Inr s'
           | Inr (Some task', s') \<Rightarrow> batchSubmitLoop task' s')"
  by pat_completeness auto
termination
  by (relation "measure (\<lambda>(task, s). pendingCount s)")
     (auto dest: batchTakeForProcessing_pendingCount)

text \<open>
  The loop of lines 1219 to 1225 of \<^verbatim>\<open>filterResult\<close>: take, leave when there is no task,
  submit, go on while the pool has spare capacity.
\<close>

function batchRefillLoop :: "MainWindow \<Rightarrow> error + MainWindow" where
  "batchRefillLoop s =
     (case batchTakeForProcessing s of
        Inl e \<Rightarrow> Inl e
      | Inr (None, s') \<Rightarrow> Inr s'
      | Inr (Some task, s') \<Rightarrow>
          if hasSpareCapacity (m_workerThreadPool (poolSubmitTask task s'))
          then batchRefillLoop (poolSubmitTask task s')
          else Inr (poolSubmitTask task s'))"
  by pat_completeness auto
termination
  by (relation "measure pendingCount")
     (auto dest: batchTakeForProcessing_pendingCount)

text \<open>
  \<^verbatim>\<open>stopBatchProcessing()\<close> without an argument takes \<^verbatim>\<open>UPDATE_MAIN_AREA\<close>, and
  \<^verbatim>\<open>resetThumbSequence\<close> without a selection action resets the selection (the defaults
  are declared in the header).
\<close>

definition startBatchProcessing :: "MainWindow \<Rightarrow> (error + MainWindow) option" where
  "startBatchProcessing s =
     (if isBatchProcessingInProgress s \<or> \<not> isProjectLoaded s then Some (Inr s)
      else let s = interactiveCancelAndClear s;
               s = s\<lparr>m_batchQueue := Some []\<rparr>
        in case batchEnqueue (nextPage (m_thumbSequence s))
                  (selectionLeader (m_thumbSequence s)) s of
             None \<Rightarrow> None
           | Some (Inl e) \<Rightarrow> Some (Inl e)
           | Some (Inr s) \<Rightarrow>
               Some (case batchTakeForProcessing s of
                       Inl e \<Rightarrow> Inl e
                     | Inr (task, s) \<Rightarrow>
                         (case (case task of
                                  Some t \<Rightarrow> batchSubmitLoop t s
                                | None \<Rightarrow> stopBatchProcessing UPDATE_MAIN_AREA s) of
                            Inl e \<Rightarrow> Inl e
                          | Inr s \<Rightarrow>
                              (case m_batchQueue s of
                                 None \<Rightarrow> Inl NullPointer
                               | Some q \<Rightarrow>
                                   (let page = queueSelectedPage s q;
                                        s = (if \<not> isNull page then snd (setSelection page s)
                                             else s)
                                    in updateMainArea s)))))"

definition goToPage :: "PageId \<Rightarrow> MainWindow \<Rightarrow> error + MainWindow" where
  "goToPage page_id s = updateMainArea (snd (setSelection page_id s))"

definition goFirstPage :: "MainWindow \<Rightarrow> error + MainWindow" where
  "goFirstPage s =
     (if isBatchProcessingInProgress s \<or> \<not> isProjectLoaded s then Inr s
      else let first_page = firstPage (m_thumbSequence s)
        in if \<not> isNull first_page then goToPage first_page s else Inr s)"

subsection \<open>filterResult\<close>

text \<open>
  \<^verbatim>\<open>task->isCancelled()\<close> reads the flag of the task object in the store.
  \<^verbatim>\<open>filterList->selectRow(idx)\<close> runs under a guard on \<^verbatim>\<open>m_ignoreSelectionChanges\<close>, so
  the selection handler it triggers returns at once; the guard leaves the counter as it
  found it.
\<close>

definition filterResult ::
  "BackgroundTask \<Rightarrow> FilterResult \<Rightarrow> MainWindow \<Rightarrow> error + MainWindow" where
  "filterResult task result s =
     (let s = interactiveProcessingFinished task s
      in case (if m_batchQueue s \<noteq> None then batchProcessingFinished task s else Inr s) of
           Inl e \<Rightarrow> Inl e
         | Inr s \<Rightarrow>
             if addr task \<in> cancelled s then Inr s
             else case (if \<not> isBatchProcessingInProgress s
                        then (case resultFilter result of
                                None \<Rightarrow> Inr s
                              | Some f \<Rightarrow>
                                  (case filterAt (m_curFilter s) of
                                     Inl e \<Rightarrow> Inl e
                                   | Inr cur \<Rightarrow>
                                       if f \<noteq> cur
                                       then (let idx = findFilter (resultFilter result)
                                             in if \<not> idx \<ge> 0 then Inl AssertionFailed
                                                else Inr (logCall (SelectRow idx)
                                                           (s\<lparr>m_curFilter := idx\<rparr>)))
                                       else Inr s))
                        else Inr s) of
                    Inl e \<Rightarrow> Inl e
                  | Inr s \<Rightarrow>
                      (let s = logCall UpdateUI s
                       in if isBatchProcessingInProgress s
                          then (case m_batchQueue s of
                                  None \<Rightarrow> Inl NullPointer
                                | Some q \<Rightarrow>
                                    if allProcessed q
                                    then (case stopBatchProcessing UPDATE_MAIN_AREA s of
                                            Inl e \<Rightarrow> Inl e
                                          | Inr s \<Rightarrow>
                                              if m_selectedPage s = lastPage (m_thumbSequence s)
                                              then goFirstPage s
                                              else Inr s)
                                    else (case batchRefillLoop s of
                                            Inl e \<Rightarrow> Inl e
                                          | Inr s \<Rightarrow>
                                              (case m_batchQueue s of
                                                 None \<Rightarrow> Inl NullPointer
                                               | Some q \<Rightarrow>
                                                   (let page = queueSelectedPage s q
                                                    in Inr (if \<not> isNull page
                                                            then snd (setSelection page s)
                                                            else s)))))
                          else Inr s))"

subsection \<open>filterSelectionChanged\<close>

text \<open>
  A \<^verbatim>\<open>QItemSelection\<close> is the list of the top rows of its ranges; \<^verbatim>\<open>propagate\<close> works on
  the caches of the stages, which are not modelled, and is only logged.
\<close>

definition filterSelectionChanged :: "int list \<Rightarrow> MainWindow \<Rightarrow> error + MainWindow" where
  "filterSelectionChanged selected s =
     (if m_ignoreSelectionChanges s \<noteq> 0 then Inr s
      else if selected = [] then Inr s
      else let s = interactiveCancelAndClear s
        in case (if m_batchQueue s \<noteq> None then batchCancelAndClear s else Inr s) of
             Inl e \<Rightarrow> Inl e
           | Inr s \<Rightarrow>
               (let was_below_fix_orientation = isBelowFixOrientation (m_curFilter s);
                    was_below_select_content = isBelowSelectContent (m_curFilter s);
                    s = s\<lparr>m_curFilter := hd selected\<rparr>;
                    now_below_fix_orientation = isBelowFixOrientation (m_curFilter s);
                    now_below_select_content = isBelowSelectContent (m_curFilter s)
                in case filterAt (m_curFilter s) of
                     Inl e \<Rightarrow> Inl e
                   | Inr f \<Rightarrow>
                       (let s = logCall (FilterSelected f) s;
                            s = (if \<not> was_below_select_content \<and> now_below_select_content
                                 then (if m_contentBoxPropagator s
                                       then logCall PropagateContentBox s else s)
                                 else s);
                            s = (if \<not> was_below_fix_orientation \<and> now_below_fix_orientation
                                 then (if m_pageOrientationPropagator s
                                       then logCall PropagateOrientation s else s)
                                 else s)
                        in case resetThumbSequence KEEP_SELECTION s of
                             Inl e \<Rightarrow> Inl e
                           | Inr s \<Rightarrow>
                               updateMainArea
                                 (fold loadDefaultSettings (tsItems (m_thumbSequence s)) s))))"

section \<open>Reading the log\<close>

text \<open>
  The pages \<^verbatim>\<open>setSelection\<close> was called with, in call order; the candidates
  \<^verbatim>\<open>resetThumbSequence\<close> has for the new selection, in the order the spec gives them
  ("same sub-page, left, right, single, first-page"); and the candidates tried when each
  is tried only after the ones before it were not found.
\<close>

fun selectionCall :: "Call \<Rightarrow> PageId list" where
  "selectionCall (SetSelection p) = [p]"
| "selectionCall c = []"

definition selectionCalls :: "Call list \<Rightarrow> PageId list" where
  "selectionCalls cs = concat (map selectionCall cs)"

definition fallbackCandidates :: "PageId \<Rightarrow> PageInfo \<Rightarrow> PageId list" where
  "fallbackCandidates page first =
     [page, PageId (imageId page) LEFT_PAGE, PageId (imageId page) RIGHT_PAGE,
      PageId (imageId page) SINGLE_PAGE, first]"

fun triedUntilFound :: "(PageId \<Rightarrow> bool) \<Rightarrow> PageId list \<Rightarrow> PageId list" where
  "triedUntilFound found [] = []"
| "triedUntilFound found (p # ps) = (if found p then [p] else p # triedUntilFound found ps)"


text \<open>An example state: a project of two pages, the remembered page not among them.\<close>

definition img7 :: MainWindow where
  "img7 = \<lparr>m_pages = [PageId (Image 5) SINGLE_PAGE, PageId (Image 7) RIGHT_PAGE],
     m_outDir = ''out'', m_thumbnailCache = True,
     m_thumbSequence = \<lparr>tsItems = [], tsLeader = nullPage, tsFactory = None\<rparr>,
     m_selectedPage = PageId (Image 7) SINGLE_PAGE, m_curFilter = 2,
     m_ignoreSelectionChanges = 0, m_debug = False,
     m_interactiveQueue = [], m_batchQueue = None,
     m_workerThreadPool = \<lparr>numThreads = 1, executing = []\<rparr>,
     m_contentBoxPropagator = True, m_pageOrientationPropagator = True,
     cancelled = {}, nextAddr = 0, calls = [],
     readyForOutput = (\<lambda>p. True), queueSelectedPage = (\<lambda>q. nullPage)\<rparr>"

fun isPropagate :: "Call \<Rightarrow> bool" where
  "isPropagate PropagateContentBox = True"
| "isPropagate PropagateOrientation = True"
| "isPropagate c = False"

fun isSelectRow :: "Call \<Rightarrow> bool" where
  "isSelectRow (SelectRow i) = True"
| "isSelectRow c = False"

definition quietly :: "MainWindow \<Rightarrow> MainWindow \<Rightarrow> bool" where
  "quietly s s' =
     (m_curFilter s' = m_curFilter s
      \<and> (\<exists>d. calls s' = calls s @ d
              \<and> \<not> list_ex isPropagate d \<and> \<not> list_ex isSelectRow d))"

definition finishedCalls :: "BackgroundTask \<Rightarrow> MainWindow \<Rightarrow> Call list" where
  "finishedCalls task s =
     ProcessingFinished InteractiveQueue (addr task) #
     (if m_batchQueue s \<noteq> None then [ProcessingFinished BatchQueue (addr task)] else [])"

definition markFinished :: "BackgroundTask \<Rightarrow> MainWindow \<Rightarrow> MainWindow" where
  "markFinished task s =
     s\<lparr>m_interactiveQueue := processingFinished task (m_interactiveQueue s),
       m_batchQueue := map_option (processingFinished task) (m_batchQueue s),
       calls := calls s @ finishedCalls task s\<rparr>"

section \<open>Example states\<close>

text \<open>
  The state the constructor leaves (lines 104 to 114): no project, no propagators, an
  empty interactive queue and no batch queue. The pool here has two threads.
\<close>

definition initialWindow :: MainWindow where
  "initialWindow =
     \<lparr>m_pages = [], m_outDir = [], m_thumbnailCache = False,
      m_thumbSequence = \<lparr>tsItems = [], tsLeader = nullPage, tsFactory = None\<rparr>,
      m_selectedPage = nullPage, m_curFilter = 0, m_ignoreSelectionChanges = 0,
      m_debug = False, m_interactiveQueue = [], m_batchQueue = None,
      m_workerThreadPool = \<lparr>numThreads = 2, executing = []\<rparr>,
      m_contentBoxPropagator = False, m_pageOrientationPropagator = False,
      cancelled = {}, nextAddr = 0, calls = [],
      readyForOutput = (\<lambda>p. False), queueSelectedPage = (\<lambda>q. nullPage)\<rparr>"

text \<open>
  A project of three pages A, B, C, opened at the deskew stage with page B selected.
\<close>

definition pageA :: PageInfo where
  "pageA = PageId (Image 1) SINGLE_PAGE"

definition pageB :: PageInfo where
  "pageB = PageId (Image 2) SINGLE_PAGE"

definition pageC :: PageInfo where
  "pageC = PageId (Image 3) SINGLE_PAGE"

definition projectWindow :: MainWindow where
  "projectWindow =
     initialWindow
       \<lparr>m_pages := [pageA, pageB, pageC], m_outDir := ''out'', m_thumbnailCache := True,
        m_thumbSequence := \<lparr>tsItems = [pageA, pageB, pageC], tsLeader = pageB,
                             tsFactory = None\<rparr>,
        m_selectedPage := pageB, m_curFilter := 2,
        m_contentBoxPropagator := True, m_pageOrientationPropagator := True,
        nextAddr := 2\<rparr>"

text \<open>
  Tasks for pages B and C up to the deskew stage, as \<^verbatim>\<open>createCompositeTask\<close> builds them,
  at the addresses 0 and 1.
\<close>

definition deskewTask :: "TaskAddr \<Rightarrow> PageInfo \<Rightarrow> TaskType \<Rightarrow> BackgroundTask" where
  "deskewTask a page ty =
     \<lparr>addr = a, taskType = ty, taskPage = page,
      chain = FixOrientationTask page
                (Some (PageSplitTask page (Some (DeskewTask page None (ty = BATCH) False))
                         (ty = BATCH) False))
                (ty = BATCH)\<rparr>"

text \<open>The interactive task of page B is running.\<close>

definition runningWindow :: MainWindow where
  "runningWindow =
     projectWindow
       \<lparr>m_interactiveQueue :=
          [\<lparr>entryPage = pageB, entryTask = deskewTask 0 pageB INTERACTIVE,
            entryStatus = Processing\<rparr>],
        m_workerThreadPool := \<lparr>numThreads = 2, executing = [deskewTask 0 pageB INTERACTIVE]\<rparr>\<rparr>"

text \<open>The interactive task of page B was cancelled and cleared while it ran.\<close>

definition cancelledWindow :: MainWindow where
  "cancelledWindow =
     projectWindow
       \<lparr>cancelled := {0},
        m_workerThreadPool := \<lparr>numThreads = 2, executing = [deskewTask 0 pageB INTERACTIVE]\<rparr>\<rparr>"

text \<open>A batch run over B and C on one thread: B is running, C is pending.\<close>

definition batchWindow :: MainWindow where
  "batchWindow =
     projectWindow
       \<lparr>m_batchQueue :=
          Some [\<lparr>entryPage = pageB, entryTask = deskewTask 0 pageB BATCH,
                 entryStatus = Processing\<rparr>,
                \<lparr>entryPage = pageC, entryTask = deskewTask 1 pageC BATCH,
                 entryStatus = Pending\<rparr>],
        m_workerThreadPool := \<lparr>numThreads = 1, executing = []\<rparr>\<rparr>"

text \<open>
  A batch run over B and C on two threads, started while the interactive task of page B
  (address 0) was still running: that task was cancelled and cleared, B went to the second
  thread and C stayed pending. The cancelled task has now left its thread.
\<close>

definition cancelledInBatchWindow :: MainWindow where
  "cancelledInBatchWindow =
     projectWindow
       \<lparr>cancelled := {0}, nextAddr := 4,
        m_batchQueue :=
          Some [\<lparr>entryPage = pageB, entryTask = deskewTask 2 pageB BATCH,
                 entryStatus = Processing\<rparr>,
                \<lparr>entryPage = pageC, entryTask = deskewTask 3 pageC BATCH,
                 entryStatus = Pending\<rparr>],
        m_workerThreadPool := \<lparr>numThreads = 2, executing = [deskewTask 2 pageB BATCH]\<rparr>\<rparr>"

fun isThumbnailWork :: "Call \<Rightarrow> bool" where
  "isThumbnailWork (CreateCacheDrivenTask f) = True"
| "isThumbnailWork (SetThumbnailFactory b) = True"
| "isThumbnailWork (ThumbReset a) = True"
| "isThumbnailWork c = False"

definition crossedBelowSelectContent :: "MainWindow \<Rightarrow> MainWindow \<Rightarrow> bool" where
  "crossedBelowSelectContent s s' =
     (\<not> isBelowSelectContent (m_curFilter s) \<and> isBelowSelectContent (m_curFilter s'))"

definition crossedBelowFixOrientation :: "MainWindow \<Rightarrow> MainWindow \<Rightarrow> bool" where
  "crossedBelowFixOrientation s s' =
     (\<not> isBelowFixOrientation (m_curFilter s) \<and> isBelowFixOrientation (m_curFilter s'))"

definition propagationsDue :: "MainWindow \<Rightarrow> MainWindow \<Rightarrow> Call list" where
  "propagationsDue s s' =
     (if crossedBelowSelectContent s s' \<and> m_contentBoxPropagator s
      then [PropagateContentBox] else []) @
     (if crossedBelowFixOrientation s s' \<and> m_pageOrientationPropagator s
      then [PropagateOrientation] else [])"

text \<open>
  What a loop has done when it returns \<open>s'\<close>, started in \<open>s\<close> with the tasks
  \<open>first\<close> in hand: it submitted \<open>first\<close> and then the tasks of the first \<open>k\<close>
  pending entries, which are no longer pending; the queue holds the same pages; and
  no entry is pending any more or the pool has no spare capacity.
\<close>

definition refilled :: "BackgroundTask list \<Rightarrow> MainWindow \<Rightarrow> MainWindow \<Rightarrow> bool" where
  "refilled first s s' =
     (\<exists>q q' k. m_batchQueue s = Some q \<and> m_batchQueue s' = Some q'
        \<and> executing (m_workerThreadPool s') =
            executing (m_workerThreadPool s) @ first @ map entryTask (take k (pendingEntries q))
        \<and> numThreads (m_workerThreadPool s') = numThreads (m_workerThreadPool s)
        \<and> pendingEntries q' = drop k (pendingEntries q)
        \<and> map entryPage q' = map entryPage q
        \<and> (pendingEntries q' = [] \<or> \<not> hasSpareCapacity (m_workerThreadPool s')))"

section \<open>One entry for a page\<close>

definition singleFlight :: "ProcessingTaskQueue \<Rightarrow> bool" where
  "singleFlight q = distinct (map entryPage q)"

definition queuesSingleFlight :: "MainWindow \<Rightarrow> bool" where
  "queuesSingleFlight s =
     (singleFlight (m_interactiveQueue s)
      \<and> (case m_batchQueue s of None \<Rightarrow> True | Some q \<Rightarrow> singleFlight q))"

text \<open>Calls that leave both queues as they are.\<close>

definition sameQueues :: "MainWindow \<Rightarrow> MainWindow \<Rightarrow> bool" where
  "sameQueues s s' =
     (m_interactiveQueue s' = m_interactiveQueue s \<and> m_batchQueue s' = m_batchQueue s)"

text \<open>
  Steps that keep the interactive queue, and the pages of the batch queue and their order.
\<close>

definition batchKept :: "MainWindow \<Rightarrow> MainWindow \<Rightarrow> bool" where
  "batchKept s s' =
     (m_interactiveQueue s' = m_interactiveQueue s
      \<and> map_option (map entryPage) (m_batchQueue s')
          = map_option (map entryPage) (m_batchQueue s))"


section \<open>The states the window reaches\<close>



section \<open>Properties of the builders\<close>

lemma stage_index_cases:
  assumes "0 \<le> (S::int)" and "S \<le> 5"
  shows "S = 0 \<or> S = 1 \<or> S = 2 \<or> S = 3 \<or> S = 4 \<or> S = 5"
  using assms by arith

lemma any_index_cases:
  "(S::int) < 0 \<or> S = 0 \<or> S = 1 \<or> S = 2 \<or> S = 3 \<or> S = 4 \<or> 5 \<le> S"
  by arith

lemma createCompositeTask_chain:
  assumes "0 \<le> S" and "S \<le> 5"
  shows "\<exists>t. snd (createCompositeTask a page S batch dbg) = Inr t
           \<and> chainStages (chain t) = [0..S]
           \<and> createdStages (fst (createCompositeTask a page S batch dbg)) = rev [0..S]"
  using stage_index_cases[OF assms]
  by (elim disjE)
     (simp_all add: createCompositeTask_def Let_def filterIdx_defs chainStages_def
        createdStages_def upto.simps)

lemma createCompositeCacheDrivenTask_chain:
  assumes "0 \<le> S" and "S \<le> 5"
  shows "\<exists>t. snd (createCompositeCacheDrivenTask S) = Inr t
           \<and> cacheDrivenChainStages t = [0..S]
           \<and> createdStages (fst (createCompositeCacheDrivenTask S)) = rev [0..S]"
  using stage_index_cases[OF assms]
  by (elim disjE)
     (simp_all add: createCompositeCacheDrivenTask_def Let_def filterIdx_defs
        cacheDrivenChainStages_def createdStages_def upto.simps)

text \<open>
  Below the fix orientation index the head of the chain is never built and the final
  assertion of either builder fails.
\<close>

lemma createCompositeTask_negative:
  "S < 0 \<Longrightarrow> createCompositeTask a page S batch dbg = ([], Inl AssertionFailed)"
  by (simp add: createCompositeTask_def Let_def filterIdx_defs)

lemma createCompositeCacheDrivenTask_negative:
  "S < 0 \<Longrightarrow> createCompositeCacheDrivenTask S = ([], Inl AssertionFailed)"
  by (simp add: createCompositeCacheDrivenTask_def Let_def filterIdx_defs)

text \<open>
  At and above the fix orientation index the head is built, whatever else is.
\<close>

lemma createCompositeTask_total:
  assumes "0 \<le> S"
  shows "\<exists>nxt. snd (createCompositeTask a page S batch dbg) =
           Inr \<lparr>addr = a, taskType = (if batch then BATCH else INTERACTIVE), taskPage = page,
                chain = FixOrientationTask page nxt batch\<rparr>"
  using assms by (simp add: createCompositeTask_def Let_def filterIdx_defs)

lemma createCompositeCacheDrivenTask_total:
  assumes "0 \<le> S"
  shows "\<exists>nxt. snd (createCompositeCacheDrivenTask S) = Inr (FixOrientationCacheDrivenTask nxt)"
  using assms by (simp add: createCompositeCacheDrivenTask_def Let_def filterIdx_defs)

text \<open>
  Which \<^verbatim>\<open>createTask\<close> calls are handed a true debug flag, for every index, also one
  outside the filter list.
\<close>

lemma debugReceivers_createCompositeTask:
  "debugReceivers (fst (createCompositeTask a page S batch dbg)) =
     (if dbg \<and> \<not> batch \<and> 1 \<le> S
      then [if 5 \<le> S then OutputFilter
            else if S = 4 then PageLayoutFilter
            else if S = 3 then SelectContentFilter
            else if S = 2 then DeskewFilter
            else PageSplitFilter]
      else [])"
  using any_index_cases[of S]
  by (elim disjE)
     (auto simp add: createCompositeTask_def Let_def filterIdx_defs debugReceivers_def)

text \<open>
  C2. For a target stage index \<open>S\<close> from 0 to 5, each builder calls the stage factories
  from stage \<open>S\<close> down to stage 0 (the calls, in order, are for the stages \<open>S, \<dots>, 0\<close>),
  and the chain it returns, followed from its head through the next pointers each
  factory was handed, is made of the stages \<open>0, \<dots>, S\<close> and of no other: the head is the
  fix orientation task and no stage above \<open>S\<close> is in the chain.
\<close>

theorem composite_builders_chain_0_to_S:
  assumes "fixOrientationFilterIdx \<le> S" and "S \<le> outputFilterIdx"
  shows "(\<exists>t. snd (createCompositeTask a page S batch dbg) = Inr t
              \<and> chainStages (chain t) = [fixOrientationFilterIdx..S])
       \<and> createdStages (fst (createCompositeTask a page S batch dbg))
           = rev [fixOrientationFilterIdx..S]
       \<and> (\<exists>c. snd (createCompositeCacheDrivenTask S) = Inr c
              \<and> cacheDrivenChainStages c = [fixOrientationFilterIdx..S])
       \<and> createdStages (fst (createCompositeCacheDrivenTask S))
           = rev [fixOrientationFilterIdx..S]"
proof -
  from assms have range: "0 \<le> S" "S \<le> 5"
    by (simp_all add: filterIdx_defs)
  from createCompositeTask_chain[OF range, of a page batch dbg]
       createCompositeCacheDrivenTask_chain[OF range]
  show ?thesis
    by (auto simp add: fixOrientationFilterIdx_def)
qed

theorem composite_builders_chain_0_to_S_witness:
  "fixOrientationFilterIdx \<le> 2 \<and> 2 \<le> outputFilterIdx
   \<and> (\<exists>t. snd (createCompositeTask 0 (PageId (Image 1) SINGLE_PAGE) 2 False True) = Inr t
          \<and> chainStages (chain t) = [0, 1, 2])
   \<and> createdStages (fst (createCompositeTask 0 (PageId (Image 1) SINGLE_PAGE) 2 False True))
       = [2, 1, 0]
   \<and> (\<exists>c. snd (createCompositeCacheDrivenTask 2) = Inr c
          \<and> cacheDrivenChainStages c = [0, 1, 2])
   \<and> createdStages (fst (createCompositeCacheDrivenTask 2)) = [2, 1, 0]"
  using composite_builders_chain_0_to_S
          [of 2 0 "PageId (Image 1) SINGLE_PAGE" False True]
  by (simp add: filterIdx_defs upto.simps)

lemma debugReceivers_at_most_one:
  "length (debugReceivers (fst (createCompositeTask a page S batch dbg))) \<le> 1"
  by (simp add: debugReceivers_createCompositeTask)

lemma debugReceivers_batch:
  "batch \<Longrightarrow> debugReceivers (fst (createCompositeTask a page S batch dbg)) = []"
  by (simp add: debugReceivers_createCompositeTask)

lemma debugReceivers_most_downstream:
  assumes "f \<in> set (debugReceivers (fst (createCompositeTask a page S batch dbg)))"
  shows "filterIdx f = min S outputFilterIdx \<and> dbg \<and> \<not> batch"
  using assms unfolding debugReceivers_createCompositeTask
  by (auto simp add: filterIdx_defs split: if_splits)

text \<open>
  C4. Whatever the request, at most one \<^verbatim>\<open>createTask\<close> call is handed a true debug flag.
  A stage that is handed one is the most downstream stage requested (the stage of index
  \<open>min S 5\<close>), the caller asked for debugging and the batch flag is off. With the batch
  flag set no stage is handed a true debug flag.
\<close>

theorem debug_flag_at_most_one_stage:
  "length (debugReceivers (fst (createCompositeTask a page S batch dbg))) \<le> 1
   \<and> (\<forall>f \<in> set (debugReceivers (fst (createCompositeTask a page S batch dbg))).
         filterIdx f = min S outputFilterIdx \<and> dbg \<and> \<not> batch)
   \<and> (batch \<longrightarrow> debugReceivers (fst (createCompositeTask a page S batch dbg)) = [])"
proof (intro conjI ballI impI)
  show "length (debugReceivers (fst (createCompositeTask a page S batch dbg))) \<le> 1"
    by (rule debugReceivers_at_most_one)
next
  fix f
  assume "f \<in> set (debugReceivers (fst (createCompositeTask a page S batch dbg)))"
  from debugReceivers_most_downstream[OF this]
  show "filterIdx f = min S outputFilterIdx" and "dbg" and "\<not> batch"
    by blast+
next
  assume batch
  then show "debugReceivers (fst (createCompositeTask a page S batch dbg)) = []"
    by (rule debugReceivers_batch)
qed

theorem debug_flag_at_most_one_stage_witness:
  "OutputFilter \<in> set (debugReceivers
       (fst (createCompositeTask 0 (PageId (Image 1) SINGLE_PAGE) 5 False True)))
   \<and> filterIdx OutputFilter = min 5 outputFilterIdx
   \<and> debugReceivers (fst (createCompositeTask 0 (PageId (Image 1) SINGLE_PAGE) 5 True True))
     = []"
proof -
  have m: "OutputFilter \<in> set (debugReceivers
       (fst (createCompositeTask 0 (PageId (Image 1) SINGLE_PAGE) 5 False True)))"
    by (simp add: debugReceivers_createCompositeTask)
  from debug_flag_at_most_one_stage[of 0 "PageId (Image 1) SINGLE_PAGE" 5 False True] m
  have "filterIdx OutputFilter = min 5 outputFilterIdx"
    by blast
  moreover
  from debug_flag_at_most_one_stage[of 0 "PageId (Image 1) SINGLE_PAGE" 5 True True]
  have "debugReceivers (fst (createCompositeTask 0 (PageId (Image 1) SINGLE_PAGE) 5 True True))
     = []"
    by blast
  ultimately show ?thesis
    using m by blast
qed

text \<open>
  C10. For a stage index from 0 to 5 the final assertion of neither builder fails: both
  return a chain, whose head is the fix orientation task, because every such index is at
  least the fix orientation index.
\<close>

theorem composite_builders_total_on_valid_index:
  assumes "0 \<le> S" and "S \<le> 5"
  shows "fixOrientationFilterIdx \<le> S
       \<and> snd (createCompositeTask a page S batch dbg) \<noteq> Inl AssertionFailed
       \<and> (\<exists>nxt. map_sum id chain (snd (createCompositeTask a page S batch dbg))
                  = Inr (FixOrientationTask page nxt batch))
       \<and> snd (createCompositeCacheDrivenTask S) \<noteq> Inl AssertionFailed
       \<and> (\<exists>nxt. snd (createCompositeCacheDrivenTask S)
                  = Inr (FixOrientationCacheDrivenTask nxt))"
  using assms createCompositeTask_total[OF assms(1), of a page batch dbg]
        createCompositeCacheDrivenTask_total[OF assms(1)]
  by (auto simp add: fixOrientationFilterIdx_def)

theorem composite_builders_total_on_valid_index_witness:
  "(0::int) \<le> 3 \<and> (3::int) \<le> 5
   \<and> snd (createCompositeTask 4 (PageId (Image 2) LEFT_PAGE) 3 True False)
       \<noteq> Inl AssertionFailed
   \<and> snd (createCompositeCacheDrivenTask 3) \<noteq> Inl AssertionFailed"
  using composite_builders_total_on_valid_index[of 3 4 "PageId (Image 2) LEFT_PAGE" True False]
  by simp

section \<open>The selection after a reset\<close>

lemma selectionCalls_append [simp]:
  "selectionCalls (xs @ ys) = selectionCalls xs @ selectionCalls ys"
  by (simp add: selectionCalls_def)

lemma selectionCalls_Nil [simp]: "selectionCalls [] = []"
  by (simp add: selectionCalls_def)

lemma selectionCalls_Cons [simp]:
  "selectionCalls (c # cs) = selectionCall c @ selectionCalls cs"
  by (simp add: selectionCalls_def)

lemma selectionCalls_cacheDriven:
  "selectionCalls (fst (createCompositeCacheDrivenTask i)) = []"
  using any_index_cases[of i]
  by (elim disjE) (simp_all add: createCompositeCacheDrivenTask_def Let_def filterIdx_defs)

lemma setSelection_calls:
  "calls (snd (setSelection p s)) = calls s @ [SetSelection p]"
  by (simp add: setSelection_def logCall_def)

lemma setSelection_fst:
  "fst (setSelection p s) = (p \<in> set (tsItems (m_thumbSequence s)))"
  by (simp add: setSelection_def)

lemma setSelection_items:
  "tsItems (m_thumbSequence (snd (setSelection p s))) = tsItems (m_thumbSequence s)"
  by (simp add: setSelection_def logCall_def)

lemma setSelection_leader:
  "tsLeader (m_thumbSequence (snd (setSelection p s))) =
     (if p \<in> set (tsItems (m_thumbSequence s)) then p else tsLeader (m_thumbSequence s))"
  by (simp add: setSelection_def logCall_def)

lemma setSelection_selectedPage:
  "m_selectedPage (snd (setSelection p s)) = m_selectedPage s"
  by (simp add: setSelection_def logCall_def)

lemma firstPage_setSelection:
  "firstPage (m_thumbSequence (snd (setSelection p s))) = firstPage (m_thumbSequence s)"
  by (simp add: firstPage_def setSelection_items)

lemmas setSelection_facts =
  setSelection_calls setSelection_fst setSelection_items setSelection_leader
  setSelection_selectedPage firstPage_setSelection

lemma selectAfterReset_calls:
  "selectionCalls (calls (selectAfterReset s)) =
     selectionCalls (calls s) @
     triedUntilFound (\<lambda>p. p \<in> set (tsItems (m_thumbSequence s)))
       (fallbackCandidates (m_selectedPage s) (firstPage (m_thumbSequence s)))"
  by (simp add: selectAfterReset_def Let_def fallbackCandidates_def setSelection_facts)

lemma selectAfterReset_leader:
  "tsLeader (m_thumbSequence (selectAfterReset s)) =
     (case find (\<lambda>p. p \<in> set (tsItems (m_thumbSequence s)))
             (fallbackCandidates (m_selectedPage s) (firstPage (m_thumbSequence s))) of
        Some p \<Rightarrow> p
      | None \<Rightarrow> tsLeader (m_thumbSequence s))"
  by (simp add: selectAfterReset_def Let_def fallbackCandidates_def setSelection_facts)

lemma selectAfterReset_items:
  "tsItems (m_thumbSequence (selectAfterReset s)) = tsItems (m_thumbSequence s)"
  by (simp add: selectAfterReset_def Let_def setSelection_facts)

lemma resetThumbSequence_before_selection:
  assumes "selection_action \<noteq> KEEP_SELECTION"
    and "resetThumbSequence selection_action s = Inr s'"
  shows "\<exists>s3. s' = selectAfterReset s3
            \<and> selectionCalls (calls s3) = selectionCalls (calls s)
            \<and> tsItems (m_thumbSequence s3) = m_pages s
            \<and> tsLeader (m_thumbSequence s3) = nullPage
            \<and> m_selectedPage s3 = m_selectedPage s"
  using assms selectionCalls_cacheDriven[of "m_curFilter s"]
  by (auto simp add: resetThumbSequence_def Let_def logCall_def logCalls_def thumbReset_def
        split: if_splits sum.splits prod.splits)

text \<open>
  C9. A reset of the thumbnail sequence that does not keep the selection tries the
  candidates in the fixed order: the remembered page with its own sub-page tag, its image
  as a left page, as a right page, as a single page, and last the first page of the
  sequence. Each is tried only when none before it was found in the sequence, and the
  first one found becomes the selection leader.
\<close>

theorem resetThumbSequence_fallback_order:
  assumes "selection_action \<noteq> KEEP_SELECTION"
    and "resetThumbSequence selection_action s = Inr s'"
  shows "tsItems (m_thumbSequence s') = m_pages s
       \<and> selectionCalls (calls s') =
           selectionCalls (calls s) @
           triedUntilFound (\<lambda>p. p \<in> set (m_pages s))
             (fallbackCandidates (m_selectedPage s) (firstPage (m_thumbSequence s')))
       \<and> selectionLeader (m_thumbSequence s') =
           (case find (\<lambda>p. p \<in> set (m_pages s))
                   (fallbackCandidates (m_selectedPage s) (firstPage (m_thumbSequence s'))) of
              Some p \<Rightarrow> p
            | None \<Rightarrow> nullPage)"
proof -
  from resetThumbSequence_before_selection[OF assms]
  obtain s3 where s3: "s' = selectAfterReset s3"
    "selectionCalls (calls s3) = selectionCalls (calls s)"
    "tsItems (m_thumbSequence s3) = m_pages s"
    "tsLeader (m_thumbSequence s3) = nullPage"
    "m_selectedPage s3 = m_selectedPage s"
    by blast
  have first: "firstPage (m_thumbSequence s') = firstPage (m_thumbSequence s3)"
    by (simp add: s3(1) firstPage_def selectAfterReset_items)
  show ?thesis
    unfolding first selectionLeader_def
    using selectAfterReset_calls[of s3] selectAfterReset_leader[of s3]
      selectAfterReset_items[of s3]
    by (simp add: s3 cong: option.case_cong)
qed

lemma resetThumbSequence_example_returns: "\<exists>s'. resetThumbSequence RESET_SELECTION img7 = Inr s'"
  by (simp add: img7_def resetThumbSequence_def createCompositeCacheDrivenTask_def Let_def
        filterIdx_defs logCall_def logCalls_def)

theorem resetThumbSequence_fallback_order_witness:
  "RESET_SELECTION \<noteq> KEEP_SELECTION
   \<and> map_sum id (\<lambda>s. selectionCalls (calls s)) (resetThumbSequence RESET_SELECTION img7)
       = Inr [PageId (Image 7) SINGLE_PAGE, PageId (Image 7) LEFT_PAGE, PageId (Image 7) RIGHT_PAGE]
   \<and> map_sum id (\<lambda>s. selectionLeader (m_thumbSequence s))
         (resetThumbSequence RESET_SELECTION img7) = Inr (PageId (Image 7) RIGHT_PAGE)"
proof -
  obtain s' where r: "resetThumbSequence RESET_SELECTION img7 = Inr s'"
    using resetThumbSequence_example_returns by blast
  have k: "RESET_SELECTION \<noteq> KEEP_SELECTION"
    by simp
  from resetThumbSequence_fallback_order[OF k r]
  have "selectionCalls (calls s') =
          [PageId (Image 7) SINGLE_PAGE, PageId (Image 7) LEFT_PAGE, PageId (Image 7) RIGHT_PAGE]
        \<and> selectionLeader (m_thumbSequence s') = PageId (Image 7) RIGHT_PAGE"
    by (simp add: img7_def fallbackCandidates_def firstPage_def)
  then show ?thesis
    by (simp add: r)
qed

lemma quietly_refl [simp]: "quietly s s"
  by (simp add: quietly_def)

lemma quietly_trans: "quietly s s1 \<Longrightarrow> quietly s1 s2 \<Longrightarrow> quietly s s2"
  by (auto simp add: quietly_def)

lemma createCompositeTask_quiet:
  "\<not> list_ex isPropagate (fst (createCompositeTask a page i batch dbg))
   \<and> \<not> list_ex isSelectRow (fst (createCompositeTask a page i batch dbg))"
  using any_index_cases[of i]
  by (elim disjE) (simp_all add: createCompositeTask_def Let_def filterIdx_defs)

lemma createCompositeCacheDrivenTask_quiet:
  "\<not> list_ex isPropagate (fst (createCompositeCacheDrivenTask i))
   \<and> \<not> list_ex isSelectRow (fst (createCompositeCacheDrivenTask i))"
  using any_index_cases[of i]
  by (elim disjE) (simp_all add: createCompositeCacheDrivenTask_def Let_def filterIdx_defs)

lemma calls_logCall [simp]: "calls (logCall c s) = calls s @ [c]"
  by (simp add: logCall_def)

lemma calls_logCalls [simp]: "calls (logCalls cs s) = calls s @ cs"
  by (simp add: logCalls_def)

lemma calls_interactiveCancelAndClear [simp]:
  "calls (interactiveCancelAndClear s) = calls s @ [CancelAndClear InteractiveQueue]"
  by (simp add: interactiveCancelAndClear_def)

lemma calls_batchCancelAndClear:
  "batchCancelAndClear s = Inr s' \<Longrightarrow> calls s' = calls s @ [CancelAndClear BatchQueue]"
  by (auto simp add: batchCancelAndClear_def split: option.splits)

lemma calls_interactiveProcessingFinished [simp]:
  "calls (interactiveProcessingFinished task s) =
     calls s @ [ProcessingFinished InteractiveQueue (addr task)]"
  by (simp add: interactiveProcessingFinished_def)

lemma calls_batchProcessingFinished:
  "batchProcessingFinished task s = Inr s' \<Longrightarrow>
     calls s' = calls s @ [ProcessingFinished BatchQueue (addr task)]"
  by (auto simp add: batchProcessingFinished_def split: option.splits)

lemma calls_batchTakeForProcessing:
  "batchTakeForProcessing s = Inr (t, s') \<Longrightarrow>
     calls s' = calls s @ [TakeForProcessing BatchQueue]"
  by (auto simp add: batchTakeForProcessing_def split: option.splits)

lemma calls_poolSubmitTask [simp]:
  "calls (poolSubmitTask task s) = calls s @ [SubmitTask (addr task)]"
  by (simp add: poolSubmitTask_def)

lemma calls_setSelection [simp]:
  "calls (snd (setSelection p s)) = calls s @ [SetSelection p]"
  by (simp add: setSelection_def)

lemma calls_loadDefaultSettings [simp]:
  "calls (loadDefaultSettings page s) =
     calls s @ map (\<lambda>f. LoadDefaultSettings f page) allFilters"
  by (simp add: loadDefaultSettings_def)

lemma loadDefaultSettings_quiet [simp]:
  "\<not> list_ex isPropagate (map (\<lambda>f. LoadDefaultSettings f page) allFilters)"
  "\<not> list_ex isSelectRow (map (\<lambda>f. LoadDefaultSettings f page) allFilters)"
  by (simp_all add: allFilters_def)

lemma m_curFilter_loadDefaultSettings [simp]:
  "m_curFilter (loadDefaultSettings page s) = m_curFilter s"
  by (simp add: loadDefaultSettings_def logCalls_def)

lemma m_curFilter_setSelection [simp]:
  "m_curFilter (snd (setSelection p s)) = m_curFilter s"
  by (simp add: setSelection_def logCall_def)

lemma m_curFilter_poolSubmitTask [simp]:
  "m_curFilter (poolSubmitTask t s) = m_curFilter s"
  by (simp add: poolSubmitTask_def logCall_def)

lemma quietly_fold_loadDefaultSettings:
  "quietly s (fold loadDefaultSettings pages s)"
proof (induction pages arbitrary: s)
  case Nil
  show ?case by simp
next
  case (Cons p ps)
  have "quietly s (loadDefaultSettings p s)"
    by (simp add: quietly_def)
  from quietly_trans[OF this Cons[of "loadDefaultSettings p s"]]
  show ?case by simp
qed

lemma selectAfterReset_quietly: "quietly s (selectAfterReset s)"
  by (simp add: quietly_def selectAfterReset_def Let_def)

lemma resetThumbSequence_steps:
  assumes "resetThumbSequence a s = Inr s'"
  shows "\<exists>s3. s' = (if a \<noteq> KEEP_SELECTION then selectAfterReset s3 else s3)
            \<and> quietly s s3"
  using assms createCompositeCacheDrivenTask_quiet[of "m_curFilter s"]
  by (auto simp add: resetThumbSequence_def Let_def quietly_def logCall_def logCalls_def
        split: if_splits sum.splits prod.splits)

lemma resetThumbSequence_quietly:
  assumes "resetThumbSequence a s = Inr s'"
  shows "quietly s s'"
proof -
  from resetThumbSequence_steps[OF assms]
  obtain s3 where s3: "s' = (if a \<noteq> KEEP_SELECTION then selectAfterReset s3 else s3)"
    and q: "quietly s s3"
    by blast
  show ?thesis
  proof (cases "a \<noteq> KEEP_SELECTION")
    case True
    with s3 quietly_trans[OF q selectAfterReset_quietly[of s3]] show ?thesis
      by simp
  next
    case False
    with s3 q show ?thesis
      by simp
  qed
qed

lemma loadPageInteractive_quietly:
  "loadPageInteractive page s = Inr s' \<Longrightarrow> quietly s s'"
  using createCompositeTask_quiet[of "nextAddr s" page "m_curFilter s" False "m_debug s"]
  by (auto simp add: loadPageInteractive_def Let_def quietly_def
        interactiveCancelAndClear_def loadDefaultSettings_def poolSubmitTask_def
        logCall_def logCalls_def allFilters_def
        split: if_splits sum.splits prod.splits option.splits)

lemma updateMainArea_quietly:
  "updateMainArea s = Inr s' \<Longrightarrow> quietly s s'"
  by (auto simp add: updateMainArea_def Let_def split: if_splits
        dest: loadPageInteractive_quietly)

declare batchRefillLoop.simps [simp del]

declare batchSubmitLoop.simps [simp del]

lemma quietly_setSelection [simp]: "quietly s (snd (setSelection p s))"
  by (simp add: quietly_def)

lemma quietly_poolSubmitTask [simp]: "quietly s (poolSubmitTask t s)"
  by (simp add: quietly_def)

lemma batchTakeForProcessing_quietly:
  "batchTakeForProcessing s = Inr (t, s') \<Longrightarrow> quietly s s'"
  by (auto simp add: quietly_def batchTakeForProcessing_def logCall_def split: option.splits)

lemma batchCancelAndClear_quietly:
  "batchCancelAndClear s = Inr s' \<Longrightarrow> quietly s s'"
  by (auto simp add: quietly_def batchCancelAndClear_def logCall_def split: option.splits)

lemma quietly_batchQueue_update [simp]:
  "quietly s (s'\<lparr>m_batchQueue := q\<rparr>) = quietly s s'"
  by (simp add: quietly_def)

lemma quietly_batchQueue_update_left [simp]:
  "quietly (s\<lparr>m_batchQueue := q\<rparr>) s' = quietly s s'"
  by (simp add: quietly_def)

lemma stopBatchProcessing_quietly:
  assumes "stopBatchProcessing main_area s = Inr s'"
  shows "quietly s s'"
proof (cases "isBatchProcessingInProgress s")
  case False
  with assms show ?thesis
    by (simp add: stopBatchProcessing_def)
next
  case True
  then obtain q where q: "m_batchQueue s = Some q"
    by (auto simp add: isBatchProcessingInProgress_def)
  define s1 where "s1 = (if \<not> isNull (queueSelectedPage s q)
                         then snd (setSelection (queueSelectedPage s q) s) else s)"
  have q1: "quietly s s1"
    by (simp add: s1_def)
  from assms True q obtain s2 s3 where
    s2: "batchCancelAndClear s1 = Inr s2"
    and s3: "(case main_area of UPDATE_MAIN_AREA \<Rightarrow> updateMainArea (s2\<lparr>m_batchQueue := None\<rparr>)
              | CLEAR_MAIN_AREA \<Rightarrow> Inr (s2\<lparr>m_batchQueue := None\<rparr>)) = Inr s3"
    and s': "resetThumbSequence RESET_SELECTION s3 = Inr s'"
    by (auto simp add: stopBatchProcessing_def Let_def s1_def split: sum.splits)
  have q3: "quietly s2 s3"
    using s3 updateMainArea_quietly[of "s2\<lparr>m_batchQueue := None\<rparr>" s3]
    by (cases main_area) auto
  from q1 batchCancelAndClear_quietly[OF s2] q3 resetThumbSequence_quietly[OF s']
  show ?thesis
    by (blast intro: quietly_trans)
qed

lemma goToPage_quietly: "goToPage p s = Inr s' \<Longrightarrow> quietly s s'"
  unfolding goToPage_def
  by (blast intro: quietly_trans quietly_setSelection dest: updateMainArea_quietly)

lemma goFirstPage_quietly: "goFirstPage s = Inr s' \<Longrightarrow> quietly s s'"
  by (auto simp add: goFirstPage_def Let_def split: if_splits dest: goToPage_quietly)

lemma batchRefillLoop_quietly: "batchRefillLoop s = Inr s' \<Longrightarrow> quietly s s'"
proof (induction s arbitrary: s' rule: batchRefillLoop.induct)
  case (1 s)
  show ?case
  proof (cases "batchTakeForProcessing s")
    case (Inl e)
    with "1.prems" show ?thesis
      by (simp add: batchRefillLoop.simps[of s])
  next
    case (Inr r)
    obtain t s1 where r: "r = (t, s1)"
      by (cases r)
    note taken = Inr[unfolded r]
    have q1: "quietly s s1"
      by (rule batchTakeForProcessing_quietly[OF taken])
    show ?thesis
    proof (cases t)
      case None
      with "1.prems" taken q1 show ?thesis
        by (simp add: batchRefillLoop.simps[of s])
    next
      case (Some task)
      have q2: "quietly s (poolSubmitTask task s1)"
        by (rule quietly_trans[OF q1 quietly_poolSubmitTask])
      show ?thesis
      proof (cases "hasSpareCapacity (m_workerThreadPool (poolSubmitTask task s1))")
        case True
        with "1.prems" taken Some
        have "batchRefillLoop (poolSubmitTask task s1) = Inr s'"
          by (simp add: batchRefillLoop.simps[of s])
        from "1.IH"[OF taken[unfolded Some] refl refl True this] q2 show ?thesis
          by (rule quietly_trans[rotated])
      next
        case False
        with "1.prems" taken Some q2 show ?thesis
          by (simp add: batchRefillLoop.simps[of s])
      qed
    qed
  qed
qed

lemma batchSubmitLoop_quietly: "batchSubmitLoop t s = Inr s' \<Longrightarrow> quietly s s'"
proof (induction t s arbitrary: s' rule: batchSubmitLoop.induct)
  case (1 task s)
  have q0: "quietly s (poolSubmitTask task s)"
    by simp
  show ?case
  proof (cases "hasSpareCapacity (m_workerThreadPool (poolSubmitTask task s))")
    case False
    with "1.prems" q0 show ?thesis
      by (simp add: batchSubmitLoop.simps[of task s])
  next
    case True
    show ?thesis
    proof (cases "batchTakeForProcessing (poolSubmitTask task s)")
      case (Inl e)
      with "1.prems" True show ?thesis
        by (simp add: batchSubmitLoop.simps[of task s])
    next
      case (Inr r)
      obtain t s1 where r: "r = (t, s1)"
        by (cases r)
      note taken = Inr[unfolded r]
      have q1: "quietly s s1"
        by (rule quietly_trans[OF q0 batchTakeForProcessing_quietly[OF taken]])
      show ?thesis
      proof (cases t)
        case None
        with "1.prems" True taken q1 show ?thesis
          by (simp add: batchSubmitLoop.simps[of task s])
      next
        case (Some task')
        with "1.prems" True taken
        have "batchSubmitLoop task' s1 = Inr s'"
          by (simp add: batchSubmitLoop.simps[of task s])
        moreover have "\<not> \<not> hasSpareCapacity (m_workerThreadPool (poolSubmitTask task s))"
          using True by simp
        ultimately have "quietly s1 s'"
          using "1.IH"[OF _ taken[unfolded Some] refl refl] by blast
        with q1 show ?thesis
          by (rule quietly_trans)
      qed
    qed
  qed
qed

lemma filterResult_marks_finished:
  "(case (if m_batchQueue (interactiveProcessingFinished task s) \<noteq> None
          then batchProcessingFinished task (interactiveProcessingFinished task s)
          else Inr (interactiveProcessingFinished task s)) of
      Inl e \<Rightarrow> Inl e | Inr s2 \<Rightarrow> k s2) = k (markFinished task s)"
proof (cases "m_batchQueue s")
  case None
  then have "s\<lparr>m_batchQueue := None\<rparr> = s"
    by (cases s) simp
  then have "markFinished task s = interactiveProcessingFinished task s"
    using None
    by (simp add: interactiveProcessingFinished_def markFinished_def finishedCalls_def
          logCall_def)
  with None show ?thesis
    by (simp add: interactiveProcessingFinished_def logCall_def)
next
  case (Some q)
  then show ?thesis
    by (simp add: interactiveProcessingFinished_def batchProcessingFinished_def
          markFinished_def finishedCalls_def logCall_def)
qed

lemma filterResult_unfold:
  "filterResult task result s =
     (let s = markFinished task s in
      if addr task \<in> cancelled s then Inr s
      else case (if \<not> isBatchProcessingInProgress s
                 then (case resultFilter result of
                         None \<Rightarrow> Inr s
                       | Some f \<Rightarrow>
                           (case filterAt (m_curFilter s) of
                              Inl e \<Rightarrow> Inl e
                            | Inr cur \<Rightarrow>
                                if f \<noteq> cur
                                then (let idx = findFilter (resultFilter result)
                                      in if \<not> idx \<ge> 0 then Inl AssertionFailed
                                         else Inr (logCall (SelectRow idx)
                                                    (s\<lparr>m_curFilter := idx\<rparr>)))
                                else Inr s))
                 else Inr s) of
             Inl e \<Rightarrow> Inl e
           | Inr s \<Rightarrow>
               (let s = logCall UpdateUI s
                in if isBatchProcessingInProgress s
                   then (case m_batchQueue s of
                           None \<Rightarrow> Inl NullPointer
                         | Some q \<Rightarrow>
                             if allProcessed q
                             then (case stopBatchProcessing UPDATE_MAIN_AREA s of
                                     Inl e \<Rightarrow> Inl e
                                   | Inr s \<Rightarrow>
                                       if m_selectedPage s = lastPage (m_thumbSequence s)
                                       then goFirstPage s
                                       else Inr s)
                             else (case batchRefillLoop s of
                                     Inl e \<Rightarrow> Inl e
                                   | Inr s \<Rightarrow>
                                       (case m_batchQueue s of
                                          None \<Rightarrow> Inl NullPointer
                                        | Some q \<Rightarrow>
                                            (let page = queueSelectedPage s q
                                             in Inr (if \<not> isNull page
                                                     then snd (setSelection page s)
                                                     else s)))))
                   else Inr s))"
  unfolding filterResult_def Let_def
  by (rule filterResult_marks_finished)

lemma filterResult_cancelled:
  assumes "addr task \<in> cancelled s"
  shows "filterResult task result s = Inr (markFinished task s)"
  using assms by (simp add: filterResult_unfold Let_def markFinished_def)

lemma filterResult_calls_after_finish:
  assumes "filterResult task result s = Inr s'"
  shows "\<exists>rest. calls s' = calls (markFinished task s) @ rest"
  using assms
  by (auto simp add: filterResult_unfold Let_def quietly_def logCall_def
        isBatchProcessingInProgress_def
        split: if_splits sum.splits option.splits
        dest!: stopBatchProcessing_quietly[unfolded quietly_def]
               goFirstPage_quietly[unfolded quietly_def]
               batchRefillLoop_quietly[unfolded quietly_def])

lemma filterResult_batch_quietly:
  assumes "filterResult task result s = Inr s'" and "isBatchProcessingInProgress s"
  shows "quietly (markFinished task s) s'"
  using assms
  by (auto simp add: filterResult_unfold Let_def quietly_def logCall_def
        isBatchProcessingInProgress_def markFinished_def
        split: if_splits sum.splits option.splits
        dest!: stopBatchProcessing_quietly[unfolded quietly_def]
               goFirstPage_quietly[unfolded quietly_def]
               batchRefillLoop_quietly[unfolded quietly_def])

text \<open>
  C5. The completion handler first calls \<^verbatim>\<open>processingFinished\<close> on the interactive
  queue and, when there is one, on the batch queue, whether the task is cancelled or not:
  the calls it logs start with these. When the cancellation flag of the task is set it
  then returns, and the state it returns differs from the one it was called in by these
  two calls only: nothing was logged after them (no \<^verbatim>\<open>updateUI\<close>, no row selected, no
  task taken or submitted) and the selected stage, the pool and the thumbnail sequence
  are as they were.
\<close>

theorem filterResult_finishes_first:
  "(addr task \<in> cancelled s \<longrightarrow> filterResult task result s = Inr (markFinished task s))
   \<and> (\<forall>s'. filterResult task result s = Inr s' \<longrightarrow>
         (\<exists>rest. calls s' = calls s @ finishedCalls task s @ rest))"
proof (intro conjI impI allI)
  assume "addr task \<in> cancelled s"
  then show "filterResult task result s = Inr (markFinished task s)"
    by (rule filterResult_cancelled)
next
  fix s'
  assume "filterResult task result s = Inr s'"
  from filterResult_calls_after_finish[OF this]
  show "\<exists>rest. calls s' = calls s @ finishedCalls task s @ rest"
    by (auto simp add: markFinished_def)
qed

lemmas example_defs =
  initialWindow_def projectWindow_def runningWindow_def cancelledWindow_def batchWindow_def
  deskewTask_def pageA_def pageB_def pageC_def

lemma propagationsDue_same [simp]: "propagationsDue s s = []"
  by (simp add: propagationsDue_def crossedBelowSelectContent_def crossedBelowFixOrientation_def)

lemma resetThumbSequence_logs_reset:
  assumes "resetThumbSequence a s = Inr s'"
  shows "\<exists>d. calls s' = calls s @ d \<and> ThumbReset a \<in> set d"
proof -
  from assms have "\<exists>s3 d. s' = (if a \<noteq> KEEP_SELECTION then selectAfterReset s3 else s3)
      \<and> calls s3 = calls s @ d \<and> ThumbReset a \<in> set d"
    by (auto simp add: resetThumbSequence_def Let_def logCall_def logCalls_def
          split: if_splits sum.splits prod.splits)
  then obtain s3 d where s3: "s' = (if a \<noteq> KEEP_SELECTION then selectAfterReset s3 else s3)"
    and d: "calls s3 = calls s @ d" "ThumbReset a \<in> set d"
    by blast
  from selectAfterReset_quietly[of s3] obtain d' where "calls (selectAfterReset s3) = calls s3 @ d'"
    by (auto simp add: quietly_def)
  with s3 d show ?thesis
    by (cases "a = KEEP_SELECTION") auto
qed

lemma filterSelectionChanged_ignored:
  assumes "m_ignoreSelectionChanges s \<noteq> 0 \<or> selected = []"
  shows "filterSelectionChanged selected s = Inr s"
  using assms by (auto simp add: filterSelectionChanged_def)

text \<open>The state at the call of \<^verbatim>\<open>resetThumbSequence\<close> in \<^verbatim>\<open>filterSelectionChanged\<close>.\<close>

lemma filterSelectionChanged_steps:
  assumes "filterSelectionChanged selected s = Inr s'"
    and "m_ignoreSelectionChanges s = 0" and "selected \<noteq> []"
  shows "\<exists>f s3 s4.
           resetThumbSequence KEEP_SELECTION s3 = Inr s4
         \<and> updateMainArea (fold loadDefaultSettings (tsItems (m_thumbSequence s4)) s4) = Inr s'
         \<and> filterAt (hd selected) = Inr f
         \<and> m_curFilter s3 = hd selected
         \<and> calls s3 = calls s @
             (CancelAndClear InteractiveQueue #
              (if m_batchQueue s \<noteq> None then [CancelAndClear BatchQueue] else []) @
              [FilterSelected f]) @
             (if \<not> isBelowSelectContent (m_curFilter s) \<and> isBelowSelectContent (hd selected)
                 \<and> m_contentBoxPropagator s then [PropagateContentBox] else []) @
             (if \<not> isBelowFixOrientation (m_curFilter s) \<and> isBelowFixOrientation (hd selected)
                 \<and> m_pageOrientationPropagator s then [PropagateOrientation] else [])"
  using assms
  apply (auto simp add: filterSelectionChanged_def Let_def logCall_def
        interactiveCancelAndClear_def batchCancelAndClear_def
        split: if_splits sum.splits option.splits)
  apply ((rule exI)+, (rule conjI, assumption)+, simp)+
  done

lemma filterSelectionChanged_handled:
  assumes "filterSelectionChanged selected s = Inr s'"
    and "m_ignoreSelectionChanges s = 0" and "selected \<noteq> []"
  shows "m_curFilter s' = hd selected
       \<and> (\<exists>pre post. calls s' = calls s @ pre @ propagationsDue s s' @ post
             \<and> \<not> list_ex isPropagate pre \<and> \<not> list_ex isThumbnailWork pre
             \<and> \<not> list_ex isPropagate post
             \<and> ThumbReset KEEP_SELECTION \<in> set post)"
proof -
  from filterSelectionChanged_steps[OF assms]
  obtain f s3 s4 where
    reset: "resetThumbSequence KEEP_SELECTION s3 = Inr s4"
    and upd: "updateMainArea (fold loadDefaultSettings (tsItems (m_thumbSequence s4)) s4) = Inr s'"
    and cur3: "m_curFilter s3 = hd selected"
    and calls3: "calls s3 = calls s @
             (CancelAndClear InteractiveQueue #
              (if m_batchQueue s \<noteq> None then [CancelAndClear BatchQueue] else []) @
              [FilterSelected f]) @
             (if \<not> isBelowSelectContent (m_curFilter s) \<and> isBelowSelectContent (hd selected)
                 \<and> m_contentBoxPropagator s then [PropagateContentBox] else []) @
             (if \<not> isBelowFixOrientation (m_curFilter s) \<and> isBelowFixOrientation (hd selected)
                 \<and> m_pageOrientationPropagator s then [PropagateOrientation] else [])"
    by blast
  define pre where "pre = CancelAndClear InteractiveQueue #
              (if m_batchQueue s \<noteq> None then [CancelAndClear BatchQueue] else []) @
              [FilterSelected f]"
  have q34: "quietly s3 s4"
    by (rule resetThumbSequence_quietly[OF reset])
  have q4: "quietly s4 s'"
    by (rule quietly_trans[OF quietly_fold_loadDefaultSettings updateMainArea_quietly[OF upd]])
  from q34 q4 cur3 have cur: "m_curFilter s' = hd selected"
    by (simp add: quietly_def)
  from resetThumbSequence_logs_reset[OF reset] obtain d where
    d: "calls s4 = calls s3 @ d" "ThumbReset KEEP_SELECTION \<in> set d"
    by blast
  from q34 d(1) have dq: "\<not> list_ex isPropagate d"
    by (auto simp add: quietly_def)
  from q4 obtain d' where d': "calls s' = calls s4 @ d'" "\<not> list_ex isPropagate d'"
    by (auto simp add: quietly_def)
  have due: "propagationsDue s s' =
             (if \<not> isBelowSelectContent (m_curFilter s) \<and> isBelowSelectContent (hd selected)
                 \<and> m_contentBoxPropagator s then [PropagateContentBox] else []) @
             (if \<not> isBelowFixOrientation (m_curFilter s) \<and> isBelowFixOrientation (hd selected)
                 \<and> m_pageOrientationPropagator s then [PropagateOrientation] else [])"
    by (simp add: propagationsDue_def crossedBelowSelectContent_def
          crossedBelowFixOrientation_def cur)
  have "calls s' = calls s @ pre @ propagationsDue s s' @ (d @ d')"
    unfolding due pre_def using calls3 d(1) d'(1) by simp
  moreover have "\<not> list_ex isPropagate pre" "\<not> list_ex isThumbnailWork pre"
    by (simp_all add: pre_def)
  moreover have "\<not> list_ex isPropagate (d @ d')"
    using dq d'(2) by simp
  moreover have "ThumbReset KEEP_SELECTION \<in> set (d @ d')"
    using d(2) by simp
  ultimately show ?thesis
    using cur by blast
qed

text \<open>
  C7, as the code has it. When the selection handler returns, the active stage is
  \<open>m_curFilter\<close> of the state it returns. The calls it logged are: calls that are
  neither propagations nor thumbnail work; then the propagations due, the content box
  propagator when the active stage went from not below to below select content and the
  propagator exists, the orientation propagator likewise for fix orientation; then the
  rest, without any propagation, which holds the reset of the thumbnail sequence whenever
  the change was handled (not ignored, not empty).
\<close>

theorem filterSelectionChanged_propagates_before_reset:
  assumes "filterSelectionChanged selected s = Inr s'"
  shows "\<exists>pre post. calls s' = calls s @ pre @ propagationsDue s s' @ post
           \<and> \<not> list_ex isPropagate pre \<and> \<not> list_ex isThumbnailWork pre
           \<and> \<not> list_ex isPropagate post
           \<and> (m_ignoreSelectionChanges s = 0 \<and> selected \<noteq> []
                \<longrightarrow> ThumbReset KEEP_SELECTION \<in> set post \<and> m_curFilter s' = hd selected)"
proof (cases "m_ignoreSelectionChanges s = 0 \<and> selected \<noteq> []")
  case True
  with filterSelectionChanged_handled[OF assms] show ?thesis
    by blast
next
  case False
  then have "filterSelectionChanged selected s = Inr s"
    by (intro filterSelectionChanged_ignored) blast
  with assms have "s' = s"
    by simp
  with False have "calls s' = calls s @ [] @ propagationsDue s s' @ []"
    by simp
  with False show ?thesis
    by (intro exI[of _ "[]"]) auto
qed

lemmas model_defs =
  filterSelectionChanged_def filterResult_def resetThumbSequence_def selectAfterReset_def
  updateMainArea_def loadPageInteractive_def stopBatchProcessing_def goFirstPage_def
  goToPage_def startBatchProcessing_def
  createCompositeTask_def createCompositeCacheDrivenTask_def filterIdx_defs
  interactiveCancelAndClear_def batchCancelAndClear_def interactiveProcessingFinished_def
  batchProcessingFinished_def batchTakeForProcessing_def poolSubmitTask_def setSelection_def
  loadDefaultSettings_def logCall_def logCalls_def
  addProcessingTask_def processingFinished_def cancelAndClear_def allProcessed_def
  submitTask_def hasSpareCapacity_def
  selectionLeader_def firstPage_def lastPage_def nextPage_def thumbReset_def
  filterAt_def findFilter_def allFilters_def
  isBatchProcessingInProgress_def isProjectLoaded_def isBelowSelectContent_def
  isBelowFixOrientation_def isOutputFilter_def isNull_def nullPage_def Let_def

lemma filterSelectionChanged_example:
  "map_sum id (\<lambda>s. (m_curFilter s, take 10 (calls s))) (filterSelectionChanged [4] projectWindow) =
     Inr (4, [CancelAndClear InteractiveQueue, FilterSelected PageLayoutFilter,
           PropagateContentBox,
           CreateCacheDrivenTask PageLayoutFilter, CreateCacheDrivenTask SelectContentFilter,
           CreateCacheDrivenTask DeskewFilter, CreateCacheDrivenTask PageSplitFilter,
           CreateCacheDrivenTask FixOrientationFilter, SetThumbnailFactory True,
           ThumbReset KEEP_SELECTION])"
  by code_simp

theorem filterSelectionChanged_propagates_before_reset_witness:
  "\<exists>s' pre post. filterSelectionChanged [4] projectWindow = Inr s'
     \<and> calls s' = calls projectWindow @ pre @ [PropagateContentBox] @ post
     \<and> \<not> list_ex isPropagate pre \<and> \<not> list_ex isThumbnailWork pre
     \<and> \<not> list_ex isPropagate post
     \<and> ThumbReset KEEP_SELECTION \<in> set post \<and> m_curFilter s' = 4"
proof -
  from filterSelectionChanged_example
  obtain s' where r: "filterSelectionChanged [4] projectWindow = Inr s'"
    by (cases "filterSelectionChanged [4] projectWindow") auto
  have start: "m_ignoreSelectionChanges projectWindow = 0 \<and> [4::int] \<noteq> []"
    by (simp add: example_defs)
  from filterSelectionChanged_propagates_before_reset[OF r] start
  obtain pre post where p:
    "calls s' = calls projectWindow @ pre @ propagationsDue projectWindow s' @ post"
    "\<not> list_ex isPropagate pre" "\<not> list_ex isThumbnailWork pre"
    "\<not> list_ex isPropagate post"
    "ThumbReset KEEP_SELECTION \<in> set post" "m_curFilter s' = hd [4]"
    by blast
  from p(6) have "propagationsDue projectWindow s' = [PropagateContentBox]"
    by (simp add: propagationsDue_def crossedBelowSelectContent_def
          crossedBelowFixOrientation_def isBelowSelectContent_def isBelowFixOrientation_def
          filterIdx_defs example_defs)
  with r p show ?thesis
    by auto
qed

theorem propagator_absent_counterexample:
  "m_curFilter initialWindow = 0
   \<and> \<not> isBelowSelectContent 0 \<and> isBelowSelectContent 4
   \<and> \<not> isBelowFixOrientation 0 \<and> isBelowFixOrientation 4
   \<and> map_sum id m_curFilter (filterSelectionChanged [4] initialWindow) = Inr 4
   \<and> map_sum id calls (filterSelectionChanged [4] initialWindow) =
       Inr [CancelAndClear InteractiveQueue, FilterSelected PageLayoutFilter,
            ThumbReset KEEP_SELECTION, SetThumbnailFactory False]"
  by code_simp

theorem filterResult_finishes_first_witness:
  "addr (deskewTask 0 pageB INTERACTIVE) \<in> cancelled cancelledWindow
   \<and> filterResult (deskewTask 0 pageB INTERACTIVE) \<lparr>resultFilter = Some PageSplitFilter\<rparr>
         cancelledWindow
       = Inr (markFinished (deskewTask 0 pageB INTERACTIVE) cancelledWindow)
   \<and> calls (markFinished (deskewTask 0 pageB INTERACTIVE) cancelledWindow)
       = [ProcessingFinished InteractiveQueue 0]
   \<and> (\<exists>s' rest.
         filterResult (deskewTask 0 pageB INTERACTIVE) \<lparr>resultFilter = Some PageSplitFilter\<rparr>
           runningWindow = Inr s'
         \<and> calls s' = ProcessingFinished InteractiveQueue 0 # rest)"
proof -
  have c: "addr (deskewTask 0 pageB INTERACTIVE) \<in> cancelled cancelledWindow"
    by (simp add: example_defs)
  have m: "calls (markFinished (deskewTask 0 pageB INTERACTIVE) cancelledWindow)
       = [ProcessingFinished InteractiveQueue 0]"
    by (simp add: markFinished_def finishedCalls_def example_defs)
  have "\<exists>s'. filterResult (deskewTask 0 pageB INTERACTIVE)
           \<lparr>resultFilter = Some PageSplitFilter\<rparr> runningWindow = Inr s'"
    by (simp add: model_defs example_defs)
  then obtain s' where r: "filterResult (deskewTask 0 pageB INTERACTIVE)
           \<lparr>resultFilter = Some PageSplitFilter\<rparr> runningWindow = Inr s'"
    by blast
  from filterResult_finishes_first
         [of "deskewTask 0 pageB INTERACTIVE" runningWindow "\<lparr>resultFilter = Some PageSplitFilter\<rparr>"] r
  have "\<exists>rest. calls s' = ProcessingFinished InteractiveQueue 0 # rest"
    by (simp add: finishedCalls_def example_defs)
  with r c m
    filterResult_finishes_first
      [of "deskewTask 0 pageB INTERACTIVE" cancelledWindow "\<lparr>resultFilter = Some PageSplitFilter\<rparr>"]
  show ?thesis
    by blast
qed

text \<open>
  C8, as the code has it. A result that is delivered (its task is not cancelled) while no
  batch run is in progress, and that comes from a stage other than the selected one,
  moves the focus to that stage: \<open>m_curFilter\<close> becomes the index of the result's filter
  and that row of the filter list is selected, before the result updates the user
  interface.
\<close>

theorem filterResult_redirects_focus_outside_batch:
  assumes "addr task \<notin> cancelled s"
    and "\<not> isBatchProcessingInProgress s"
    and "resultFilter result = Some f"
    and "filterAt (m_curFilter s) = Inr cur"
    and "f \<noteq> cur"
  shows "\<exists>s'. filterResult task result s = Inr s'
            \<and> m_curFilter s' = filterIdx f
            \<and> calls s' = calls s @ [ProcessingFinished InteractiveQueue (addr task),
                                     SelectRow (filterIdx f), UpdateUI]"
proof -
  have nonneg: "0 \<le> filterIdx f"
    by (cases f) (simp_all add: filterIdx_defs)
  from assms(2) have none: "m_batchQueue s = None"
    by (simp add: isBatchProcessingInProgress_def)
  with assms nonneg show ?thesis
    by (simp add: filterResult_unfold Let_def markFinished_def finishedCalls_def
          isBatchProcessingInProgress_def findFilter_def logCall_def)
qed

theorem filterResult_redirects_focus_outside_batch_witness:
  "addr (deskewTask 0 pageB INTERACTIVE) \<notin> cancelled runningWindow
   \<and> \<not> isBatchProcessingInProgress runningWindow
   \<and> filterAt (m_curFilter runningWindow) = Inr DeskewFilter
   \<and> PageSplitFilter \<noteq> DeskewFilter
   \<and> (\<exists>s'. filterResult (deskewTask 0 pageB INTERACTIVE)
               \<lparr>resultFilter = Some PageSplitFilter\<rparr> runningWindow = Inr s'
            \<and> m_curFilter s' = 1
            \<and> calls s' = [ProcessingFinished InteractiveQueue 0, SelectRow 1, UpdateUI])"
proof -
  have h: "addr (deskewTask 0 pageB INTERACTIVE) \<notin> cancelled runningWindow"
    "\<not> isBatchProcessingInProgress runningWindow"
    "resultFilter \<lparr>resultFilter = Some PageSplitFilter\<rparr> = Some PageSplitFilter"
    "filterAt (m_curFilter runningWindow) = Inr DeskewFilter"
    "PageSplitFilter \<noteq> DeskewFilter"
    by (simp_all add: example_defs isBatchProcessingInProgress_def filterAt_def allFilters_def)
  from filterResult_redirects_focus_outside_batch[OF h] h
  show ?thesis
    by (simp add: filterIdx_defs example_defs)
qed

text \<open>
  While a batch run is in progress a delivered result from another stage leaves the
  focus where it is: in \<open>batchWindow\<close> the deskew stage (index 2) stays selected when
  the result of page B comes from the page split stage, and no row is selected.
\<close>

theorem filterResult_batch_no_redirect_counterexample:
  "addr (deskewTask 0 pageB BATCH) \<notin> cancelled batchWindow
   \<and> filterAt (m_curFilter batchWindow) = Inr DeskewFilter
   \<and> filterIdx PageSplitFilter = 1
   \<and> map_sum id m_curFilter
        (filterResult (deskewTask 0 pageB BATCH) \<lparr>resultFilter = Some PageSplitFilter\<rparr>
           batchWindow) = Inr 2
   \<and> map_sum id calls
        (filterResult (deskewTask 0 pageB BATCH) \<lparr>resultFilter = Some PageSplitFilter\<rparr>
           batchWindow)
       = Inr [ProcessingFinished InteractiveQueue 0, ProcessingFinished BatchQueue 0, UpdateUI,
              TakeForProcessing BatchQueue, SubmitTask 1]"
  by code_simp

section \<open>The refill loops\<close>

lemma takeForProcessing_none:
  "pendingEntries q = [] \<Longrightarrow> takeForProcessing q = (None, q)"
  by (induction q) (auto simp add: pendingEntries_def split: if_splits)

lemma takeForProcessing_first:
  "pendingEntries q = e # rest \<Longrightarrow>
     fst (takeForProcessing q) = Some (entryTask e)
     \<and> pendingEntries (snd (takeForProcessing q)) = rest"
  by (induction q) (auto simp add: pendingEntries_def split: if_splits)

lemma takeForProcessing_pages [simp]:
  "map entryPage (snd (takeForProcessing q)) = map entryPage q"
  by (induction q) auto

lemma refilledI:
  assumes "m_batchQueue s = Some q" and "m_batchQueue s' = Some q'"
    and "executing (m_workerThreadPool s') =
           executing (m_workerThreadPool s) @ first @ map entryTask (take k (pendingEntries q))"
    and "numThreads (m_workerThreadPool s') = numThreads (m_workerThreadPool s)"
    and "pendingEntries q' = drop k (pendingEntries q)"
    and "map entryPage q' = map entryPage q"
    and "pendingEntries q' = [] \<or> \<not> hasSpareCapacity (m_workerThreadPool s')"
  shows "refilled first s s'"
  unfolding refilled_def using assms by blast

lemma batchRefillLoop_refills:
  "m_batchQueue s = Some q \<Longrightarrow> length (pendingEntries q) = n \<Longrightarrow>
     \<exists>s'. batchRefillLoop s = Inr s' \<and> refilled [] s s'"
proof (induction n arbitrary: s q)
  case 0
  then have "takeForProcessing q = (None, q)"
    by (simp add: takeForProcessing_none)
  with 0 show ?case
    by (subst batchRefillLoop.simps)
       (auto simp add: batchTakeForProcessing_def logCall_def
          intro!: refilledI[where q=q and q'=q and k=0])
next
  case (Suc n)
  then obtain e rest where pend: "pendingEntries q = e # rest"
    by (cases "pendingEntries q") auto
  define q1 where "q1 = snd (takeForProcessing q)"
  define s1 where "s1 = logCall (TakeForProcessing BatchQueue) (s\<lparr>m_batchQueue := Some q1\<rparr>)"
  define s2 where "s2 = poolSubmitTask (entryTask e) s1"
  from takeForProcessing_first[OF pend]
  have took: "fst (takeForProcessing q) = Some (entryTask e)" "pendingEntries q1 = rest"
    by (simp_all add: q1_def)
  have take_eq: "batchTakeForProcessing s = Inr (Some (entryTask e), s1)"
    using Suc.prems(1) took(1) by (simp add: batchTakeForProcessing_def s1_def q1_def)
  have q2: "m_batchQueue s2 = Some q1"
    by (simp add: s2_def s1_def poolSubmitTask_def logCall_def)
  have ex2: "executing (m_workerThreadPool s2) = executing (m_workerThreadPool s) @ [entryTask e]"
    "numThreads (m_workerThreadPool s2) = numThreads (m_workerThreadPool s)"
    by (simp_all add: s2_def s1_def poolSubmitTask_def logCall_def submitTask_def)
  show ?case
  proof (cases "hasSpareCapacity (m_workerThreadPool s2)")
    case True
    from Suc.prems(2) pend took(2) have "length (pendingEntries q1) = n"
      by simp
    from Suc.IH[OF q2 this] obtain s' where
      s': "batchRefillLoop s2 = Inr s'" "refilled [] s2 s'"
      by blast
    from s'(2)[unfolded refilled_def] obtain qa q' k where
      qa: "m_batchQueue s2 = Some qa" and k0: "m_batchQueue s' = Some q'"
      "executing (m_workerThreadPool s') =
         executing (m_workerThreadPool s2) @ [] @ map entryTask (take k (pendingEntries qa))"
      "numThreads (m_workerThreadPool s') = numThreads (m_workerThreadPool s2)"
      "pendingEntries q' = drop k (pendingEntries qa)"
      "map entryPage q' = map entryPage qa"
      "pendingEntries q' = [] \<or> \<not> hasSpareCapacity (m_workerThreadPool s')"
      by blast
    from qa q2 have "qa = q1"
      by simp
    note k = k0[unfolded this]
    have "batchRefillLoop s = Inr s'"
      using take_eq True s'(1) by (subst batchRefillLoop.simps) (simp add: s2_def)
    moreover have "refilled [] s s'"
      using Suc.prems(1) k ex2 pend took(2) q1_def
      by (intro refilledI[where q=q and q'=q' and k="Suc k"]) simp_all
    ultimately show ?thesis
      by blast
  next
    case False
    have "batchRefillLoop s = Inr s2"
      using take_eq False by (subst batchRefillLoop.simps) (simp add: s2_def)
    moreover have "refilled [] s s2"
      using Suc.prems(1) q2 ex2 pend took(2) False q1_def
      by (intro refilledI[where q=q and q'=q1 and k="Suc 0"]) simp_all
    ultimately show ?thesis
      by blast
  qed
qed

lemma batchSubmitLoop_refills:
  "m_batchQueue s = Some q \<Longrightarrow> length (pendingEntries q) = n \<Longrightarrow>
     \<exists>s'. batchSubmitLoop t s = Inr s' \<and> refilled [t] s s'"
proof (induction n arbitrary: s q t)
  case (0 s q t)
  define s0 where "s0 = poolSubmitTask t s"
  have q0: "m_batchQueue s0 = Some q"
    using 0 by (simp add: s0_def poolSubmitTask_def logCall_def)
  have ex0: "executing (m_workerThreadPool s0) = executing (m_workerThreadPool s) @ [t]"
    "numThreads (m_workerThreadPool s0) = numThreads (m_workerThreadPool s)"
    by (simp_all add: s0_def poolSubmitTask_def logCall_def submitTask_def)
  from 0 have none: "takeForProcessing q = (None, q)"
    by (simp add: takeForProcessing_none)
  show ?case
  proof (cases "hasSpareCapacity (m_workerThreadPool s0)")
    case False
    then have "batchSubmitLoop t s = Inr s0"
      by (subst batchSubmitLoop.simps) (simp add: s0_def)
    moreover have "refilled [t] s s0"
      using 0 q0 ex0 False
      by (intro refilledI[where q=q and q'=q and k=0]) simp_all
    ultimately show ?thesis by blast
  next
    case True
    define s1 where "s1 = logCall (TakeForProcessing BatchQueue) (s0\<lparr>m_batchQueue := Some q\<rparr>)"
    have "batchSubmitLoop t s = Inr s1"
      using True q0 none
      by (subst batchSubmitLoop.simps) (simp add: s0_def[symmetric] batchTakeForProcessing_def s1_def)
    moreover have "refilled [t] s s1"
      using 0 ex0
      by (intro refilledI[where q=q and q'=q and k=0]) (simp_all add: s1_def logCall_def)
    ultimately show ?thesis by blast
  qed
next
  case (Suc n s q t)
  define s0 where "s0 = poolSubmitTask t s"
  have q0: "m_batchQueue s0 = Some q"
    using Suc.prems by (simp add: s0_def poolSubmitTask_def logCall_def)
  have ex0: "executing (m_workerThreadPool s0) = executing (m_workerThreadPool s) @ [t]"
    "numThreads (m_workerThreadPool s0) = numThreads (m_workerThreadPool s)"
    by (simp_all add: s0_def poolSubmitTask_def logCall_def submitTask_def)
  from Suc.prems obtain e rest where pend: "pendingEntries q = e # rest"
    by (cases "pendingEntries q") auto
  show ?case
  proof (cases "hasSpareCapacity (m_workerThreadPool s0)")
    case False
    then have "batchSubmitLoop t s = Inr s0"
      by (subst batchSubmitLoop.simps) (simp add: s0_def)
    moreover have "refilled [t] s s0"
      using Suc.prems q0 ex0 False
      by (intro refilledI[where q=q and q'=q and k=0]) simp_all
    ultimately show ?thesis by blast
  next
    case True
    define q1 where "q1 = snd (takeForProcessing q)"
    define s1 where "s1 = logCall (TakeForProcessing BatchQueue) (s0\<lparr>m_batchQueue := Some q1\<rparr>)"
    from takeForProcessing_first[OF pend]
    have took: "fst (takeForProcessing q) = Some (entryTask e)" "pendingEntries q1 = rest"
      by (simp_all add: q1_def)
    have take_eq: "batchTakeForProcessing s0 = Inr (Some (entryTask e), s1)"
      using q0 took(1) by (simp add: batchTakeForProcessing_def s1_def q1_def)
    have q1': "m_batchQueue s1 = Some q1"
      by (simp add: s1_def logCall_def)
    have ex1: "executing (m_workerThreadPool s1) = executing (m_workerThreadPool s) @ [t]"
      "numThreads (m_workerThreadPool s1) = numThreads (m_workerThreadPool s)"
      using ex0 by (simp_all add: s1_def logCall_def)
    from Suc.prems(2) pend took(2) have "length (pendingEntries q1) = n"
      by simp
    from Suc.IH[OF q1' this, of "entryTask e"] obtain s' where
      s': "batchSubmitLoop (entryTask e) s1 = Inr s'" "refilled [entryTask e] s1 s'"
      by blast
    from s'(2)[unfolded refilled_def] obtain qa q' k where
      qa: "m_batchQueue s1 = Some qa" and k0: "m_batchQueue s' = Some q'"
      "executing (m_workerThreadPool s') =
         executing (m_workerThreadPool s1) @ [entryTask e] @
         map entryTask (take k (pendingEntries qa))"
      "numThreads (m_workerThreadPool s') = numThreads (m_workerThreadPool s1)"
      "pendingEntries q' = drop k (pendingEntries qa)"
      "map entryPage q' = map entryPage qa"
      "pendingEntries q' = [] \<or> \<not> hasSpareCapacity (m_workerThreadPool s')"
      by blast
    from qa q1' have "qa = q1"
      by simp
    note k = k0[unfolded this]
    have "batchSubmitLoop t s = Inr s'"
      using take_eq True s'(1)
      by (subst batchSubmitLoop.simps) (simp add: s0_def[symmetric])
    moreover have "refilled [t] s s'"
      using Suc.prems(1) k ex1 pend took(2) q1_def
      by (intro refilledI[where q=q and q'=q' and k="Suc k"]) simp_all
    ultimately show ?thesis
      by blast
  qed
qed

lemma batchRefillLoop_example:
  "map_sum id (\<lambda>s. (map addr (executing (m_workerThreadPool s)),
                       map_option pendingEntries (m_batchQueue s),
                       hasSpareCapacity (m_workerThreadPool s)))
     (batchRefillLoop batchWindow) = Inr ([1], Some [], False)"
  by code_simp

section \<open>The queues keep one entry for a page\<close>

lemma singleFlight_empty [simp]: "singleFlight []"
  by (simp add: singleFlight_def)

lemma singleFlight_short: "length q \<le> 1 \<Longrightarrow> singleFlight q"
  by (cases q) (simp_all add: singleFlight_def)


lemma singleFlight_takeForProcessing [simp]:
  "singleFlight (snd (takeForProcessing q)) = singleFlight q"
  by (simp add: singleFlight_def)

lemma singleFlight_filter: "singleFlight q \<Longrightarrow> singleFlight (filter P q)"
  by (simp add: singleFlight_def distinct_map_filter)


lemma singleFlight_cancelAndClear [simp]: "singleFlight (snd (cancelAndClear q))"
  by (simp add: cancelAndClear_def)

lemma singleFlight_cancelAndRemove:
  "singleFlight q \<Longrightarrow> singleFlight (snd (cancelAndRemove pages q))"
  by (simp add: cancelAndRemove_def singleFlight_filter)

lemma sameQueues_refl [simp]: "sameQueues s s"
  by (simp add: sameQueues_def)

lemma sameQueues_trans: "sameQueues s s1 \<Longrightarrow> sameQueues s1 s2 \<Longrightarrow> sameQueues s s2"
  by (simp add: sameQueues_def)

lemma sameQueues_logCall [simp]: "sameQueues s (logCall c s)"
  by (simp add: sameQueues_def logCall_def)

lemma sameQueues_logCalls [simp]: "sameQueues s (logCalls cs s)"
  by (simp add: sameQueues_def logCalls_def)

lemma sameQueues_poolSubmitTask [simp]: "sameQueues s (poolSubmitTask t s)"
  by (simp add: sameQueues_def poolSubmitTask_def logCall_def)


lemma sameQueues_setSelection [simp]: "sameQueues s (snd (setSelection p s))"
  by (simp add: sameQueues_def setSelection_def logCall_def)


lemma sameQueues_selectAfterReset [simp]: "sameQueues s (selectAfterReset s)"
  by (simp add: sameQueues_def selectAfterReset_def Let_def setSelection_def logCall_def)

lemma resetThumbSequence_sameQueues:
  "resetThumbSequence a s = Inr s' \<Longrightarrow> sameQueues s s'"
proof -
  assume "resetThumbSequence a s = Inr s'"
  from resetThumbSequence_steps[OF this] obtain s3 where
    s3: "s' = (if a \<noteq> KEEP_SELECTION then selectAfterReset s3 else s3)"
    by blast
  from \<open>resetThumbSequence a s = Inr s'\<close> have "\<exists>s3. s' = (if a \<noteq> KEEP_SELECTION then selectAfterReset s3 else s3)
      \<and> sameQueues s s3"
    by (auto simp add: resetThumbSequence_def Let_def sameQueues_def logCall_def logCalls_def
          split: if_splits sum.splits prod.splits)
  then obtain s4 where "s' = (if a \<noteq> KEEP_SELECTION then selectAfterReset s4 else s4)"
    and "sameQueues s s4"
    by blast
  then show "sameQueues s s'"
    using sameQueues_trans[OF _ sameQueues_selectAfterReset[of s4]] by (cases "a = KEEP_SELECTION") auto
qed

lemma createCompositeTask_result:
  assumes "createCompositeTask a page i batch dbg = (cs, Inr t)"
  shows "addr t = a \<and> taskPage t = page"
proof -
  from assms have "snd (createCompositeTask a page i batch dbg) = Inr t"
    by simp
  then show ?thesis
    unfolding createCompositeTask_def Let_def snd_conv
    by (auto split: option.splits)
qed

text \<open>
  \<^verbatim>\<open>loadPageInteractive\<close> clears the interactive queue before it adds to it: the queue it
  leaves holds nothing, or the one task it created for the page, taken for processing.
\<close>

lemma loadPageInteractive_queues:
  assumes "loadPageInteractive page s = Inr s'"
  shows "m_batchQueue s' = m_batchQueue s
       \<and> (m_interactiveQueue s' = []
          \<or> (\<exists>t. m_interactiveQueue s' =
                 [\<lparr>entryPage = page, entryTask = t, entryStatus = Processing\<rparr>]
               \<and> addr t = nextAddr s \<and> taskPage t = page))"
  using assms
  by (auto simp add: loadPageInteractive_def Let_def interactiveCancelAndClear_def
        cancelAndClear_def loadDefaultSettings_def logCall_def logCalls_def
        addProcessingTask_def poolSubmitTask_def
        split: if_splits sum.splits prod.splits option.splits
        dest: createCompositeTask_result)



lemma updateMainArea_batchQueue:
  "updateMainArea s = Inr s' \<Longrightarrow> m_batchQueue s' = m_batchQueue s"
  by (auto simp add: updateMainArea_def Let_def split: if_splits
        dest: loadPageInteractive_queues)




lemma batchKept_refl [simp]: "batchKept s s"
  by (simp add: batchKept_def)


lemma batchKept_sameQueues: "sameQueues s s' \<Longrightarrow> batchKept s s'"
  by (simp add: batchKept_def sameQueues_def)



lemma batchKept_poolSubmitTask [simp]: "batchKept s (poolSubmitTask t s)"
  by (simp add: batchKept_sameQueues)





lemma singleFlight_logCall [simp]: "queuesSingleFlight (logCall c s) = queuesSingleFlight s"
  by (simp add: queuesSingleFlight_def logCall_def)

lemma singleFlight_setSelection [simp]:
  "queuesSingleFlight (snd (setSelection p s)) = queuesSingleFlight s"
  by (simp add: queuesSingleFlight_def setSelection_def logCall_def)

lemma singleFlight_curFilter_update [simp]:
  "queuesSingleFlight (s\<lparr>m_curFilter := i\<rparr>) = queuesSingleFlight s"
  by (simp add: queuesSingleFlight_def)

lemma singleFlight_interactiveCancelAndClear:
  "queuesSingleFlight s \<Longrightarrow> queuesSingleFlight (interactiveCancelAndClear s)"
  by (simp add: queuesSingleFlight_def interactiveCancelAndClear_def logCall_def)




lemma stopBatchProcessing_steps:
  assumes "stopBatchProcessing main_area s = Inr s'" and "isBatchProcessingInProgress s"
  shows "\<exists>q s1 s2 s3. m_batchQueue s = Some q
           \<and> s1 = (if \<not> isNull (queueSelectedPage s q)
                    then snd (setSelection (queueSelectedPage s q) s) else s)
           \<and> batchCancelAndClear s1 = Inr s2
           \<and> (case main_area of
                 UPDATE_MAIN_AREA \<Rightarrow> updateMainArea (s2\<lparr>m_batchQueue := None\<rparr>)
               | CLEAR_MAIN_AREA \<Rightarrow> Inr (s2\<lparr>m_batchQueue := None\<rparr>)) = Inr s3
           \<and> resetThumbSequence RESET_SELECTION s3 = Inr s'"
proof -
  from assms(2) obtain q where q: "m_batchQueue s = Some q"
    by (auto simp add: isBatchProcessingInProgress_def)
  with assms show ?thesis
    by (auto simp add: stopBatchProcessing_def Let_def split: sum.splits)
qed

lemma stopBatchProcessing_batchQueue:
  assumes "stopBatchProcessing main_area s = Inr s'" and "isBatchProcessingInProgress s"
  shows "m_batchQueue s' = None"
proof -
  from stopBatchProcessing_steps[OF assms] obtain s2 s3 where
    s3: "(case main_area of
            UPDATE_MAIN_AREA \<Rightarrow> updateMainArea (s2\<lparr>m_batchQueue := None\<rparr>)
          | CLEAR_MAIN_AREA \<Rightarrow> Inr (s2\<lparr>m_batchQueue := None\<rparr>)) = Inr s3"
    and s': "resetThumbSequence RESET_SELECTION s3 = Inr s'"
    by blast
  from s3 have "m_batchQueue s3 = None"
    by (cases main_area) (auto dest: updateMainArea_batchQueue)
  with resetThumbSequence_sameQueues[OF s'] show ?thesis
    by (simp add: sameQueues_def)
qed








section \<open>Starting a batch run\<close>

lemma thumbSequence_interactiveCancelAndClear [simp]:
  "m_thumbSequence (interactiveCancelAndClear s) = m_thumbSequence s"
  by (simp add: interactiveCancelAndClear_def logCall_def)

lemma startBatchProcessing_cases:
  assumes "startBatchProcessing s = Some (Inr s')"
    and "\<not> isBatchProcessingInProgress s" and "isProjectLoaded s"
  obtains (taken) s1 t s2 s3 q where
      "batchEnqueue (nextPage (m_thumbSequence s)) (selectionLeader (m_thumbSequence s))
         ((interactiveCancelAndClear s)\<lparr>m_batchQueue := Some []\<rparr>) = Some (Inr s1)"
      "batchTakeForProcessing s1 = Inr (Some t, s2)"
      "batchSubmitLoop t s2 = Inr s3"
      "m_batchQueue s3 = Some q"
      "updateMainArea (if \<not> isNull (queueSelectedPage s3 q)
                       then snd (setSelection (queueSelectedPage s3 q) s3) else s3) = Inr s'"
  | (none) s1 s2 s3 q where
      "batchTakeForProcessing s1 = Inr (None, s2)"
      "stopBatchProcessing UPDATE_MAIN_AREA s2 = Inr s3"
      "m_batchQueue s3 = Some q"
  using assms
  by (auto simp add: startBatchProcessing_def Let_def
        split: option.splits sum.splits prod.splits split del: if_split)






section \<open>The refill at the start of a batch run and after a completion\<close>

lemma startBatchProcessing_taken:
  assumes "startBatchProcessing s = Some (Inr s')"
    and "\<not> isBatchProcessingInProgress s" and "isProjectLoaded s"
  obtains s1 t s2 s3 q where
      "batchEnqueue (nextPage (m_thumbSequence s)) (selectionLeader (m_thumbSequence s))
         ((interactiveCancelAndClear s)\<lparr>m_batchQueue := Some []\<rparr>) = Some (Inr s1)"
      "batchTakeForProcessing s1 = Inr (Some t, s2)"
      "batchSubmitLoop t s2 = Inr s3"
      "m_batchQueue s3 = Some q"
      "s' = (if \<not> isNull (queueSelectedPage s3 q)
             then snd (setSelection (queueSelectedPage s3 q) s3) else s3)"
  using assms
proof (cases rule: startBatchProcessing_cases)
  case (none s1 s2 s3 q)
  have "m_batchQueue s3 = None"
  proof (cases "isBatchProcessingInProgress s2")
    case True
    from stopBatchProcessing_batchQueue[OF none(2) True] show ?thesis .
  next
    case False
    with none(2) show ?thesis
      by (simp add: stopBatchProcessing_def isBatchProcessingInProgress_def)
  qed
  with none(3) show ?thesis
    by simp
next
  case (taken s1 t s2 s3 q)
  define s4 where "s4 = (if \<not> isNull (queueSelectedPage s3 q)
                          then snd (setSelection (queueSelectedPage s3 q) s3) else s3)"
  from taken(4) have "m_batchQueue s4 = Some q"
    by (simp add: s4_def setSelection_def logCall_def)
  moreover from taken(5) have "updateMainArea s4 = Inr s'"
    by (simp only: s4_def)
  ultimately have "s' = s4"
    by (auto simp add: updateMainArea_def isBatchProcessingInProgress_def split: if_splits)
  with taken(1-4) that show ?thesis
    unfolding s4_def by blast
qed

lemma startBatchProcessing_refills:
  assumes "startBatchProcessing s = Some (Inr s')"
    and "\<not> isBatchProcessingInProgress s" and "isProjectLoaded s"
  shows "\<exists>s1 t s2 s3.
           batchEnqueue (nextPage (m_thumbSequence s)) (selectionLeader (m_thumbSequence s))
             ((interactiveCancelAndClear s)\<lparr>m_batchQueue := Some []\<rparr>) = Some (Inr s1)
         \<and> batchTakeForProcessing s1 = Inr (Some t, s2)
         \<and> refilled [t] s2 s3
         \<and> m_batchQueue s' = m_batchQueue s3
         \<and> m_workerThreadPool s' = m_workerThreadPool s3"
  using assms
proof (cases rule: startBatchProcessing_taken)
  case (1 s1 t s2 s3 q)
  from 1(2) obtain q2 where "m_batchQueue s2 = Some q2"
    by (auto simp add: batchTakeForProcessing_def logCall_def split: option.splits)
  from batchSubmitLoop_refills[OF this refl, of t] 1(3) have "refilled [t] s2 s3"
    by simp
  moreover from 1(5) have "m_batchQueue s' = m_batchQueue s3"
    "m_workerThreadPool s' = m_workerThreadPool s3"
    by (simp_all add: setSelection_def logCall_def)
  ultimately show ?thesis
    using 1(1,2) by blast
qed

lemma startBatchProcessing_returns:
  assumes "\<not> isBatchProcessingInProgress s" and "isProjectLoaded s"
    and enq: "batchEnqueue (nextPage (m_thumbSequence s)) (selectionLeader (m_thumbSequence s))
           ((interactiveCancelAndClear s)\<lparr>m_batchQueue := Some []\<rparr>) = Some (Inr s1)"
    and took: "batchTakeForProcessing s1 = Inr (Some t, s2)"
  shows "\<exists>s' s3. startBatchProcessing s = Some (Inr s')
           \<and> refilled [t] s2 s3
           \<and> m_batchQueue s' = m_batchQueue s3
           \<and> m_workerThreadPool s' = m_workerThreadPool s3"
proof -
  from took obtain q2 where "m_batchQueue s2 = Some q2"
    by (auto simp add: batchTakeForProcessing_def logCall_def split: option.splits)
  from batchSubmitLoop_refills[OF this refl, of t] obtain s3 where
    s3: "batchSubmitLoop t s2 = Inr s3" "refilled [t] s2 s3"
    by blast
  from s3(2) obtain q3 where q3: "m_batchQueue s3 = Some q3"
    by (auto simp add: refilled_def)
  define s4 where "s4 = (if \<not> isNull (queueSelectedPage s3 q3)
                          then snd (setSelection (queueSelectedPage s3 q3) s3) else s3)"
  have q4: "m_batchQueue s4 = m_batchQueue s3" "m_workerThreadPool s4 = m_workerThreadPool s3"
    by (simp_all add: s4_def setSelection_def logCall_def)
  with q3 have "updateMainArea s4 = Inr s4"
    by (simp add: updateMainArea_def isBatchProcessingInProgress_def)
  then have "startBatchProcessing s = Some (Inr s4)"
    using assms(1,2) enq took s3(1) q3
    by (simp add: startBatchProcessing_def Let_def s4_def)
  with s3(2) q4 show ?thesis
    by blast
qed

lemma filterResult_refills:
  assumes "m_batchQueue s = Some q" and "addr task \<notin> cancelled s"
    and "\<not> allProcessed (processingFinished task q)"
  shows "\<exists>s' s3. filterResult task result s = Inr s'
           \<and> refilled [] (logCall UpdateUI (markFinished task s)) s3
           \<and> m_batchQueue s' = m_batchQueue s3
           \<and> m_workerThreadPool s' = m_workerThreadPool s3"
proof -
  define s1 where "s1 = markFinished task s"
  define s2 where "s2 = logCall UpdateUI s1"
  have q1: "m_batchQueue s1 = Some (processingFinished task q)" "addr task \<notin> cancelled s1"
    using assms by (simp_all add: s1_def markFinished_def)
  then have q2: "m_batchQueue s2 = Some (processingFinished task q)"
    by (simp add: s2_def logCall_def)
  from batchRefillLoop_refills[OF q2 refl] obtain s3 where
    s3: "batchRefillLoop s2 = Inr s3" "refilled [] s2 s3"
    by blast
  from s3(2) obtain q3 where q3: "m_batchQueue s3 = Some q3"
    by (auto simp add: refilled_def)
  define s4 where "s4 = (if \<not> isNull (queueSelectedPage s3 q3)
                          then snd (setSelection (queueSelectedPage s3 q3) s3) else s3)"
  have "filterResult task result s = Inr s4"
    using q1 q2 assms(3) s3(1) q3
    by (simp add: filterResult_unfold Let_def s1_def[symmetric] s2_def[symmetric]
          isBatchProcessingInProgress_def s4_def)
  moreover have "m_batchQueue s4 = m_batchQueue s3" "m_workerThreadPool s4 = m_workerThreadPool s3"
    by (simp_all add: s4_def setSelection_def logCall_def)
  ultimately show ?thesis
    using s3(2) unfolding s2_def s1_def by blast
qed

text \<open>
  C6. At the start of a batch run, once the pages are enqueued and a first task is taken,
  \<^verbatim>\<open>startBatchProcessing\<close> returns and has run the loop of lines 1116 to 1121; the
  completion handler of a task that is not cancelled, with entries left in the batch queue,
  returns and has run the loop of lines 1219 to 1225. Each loop submits to the pool, in
  queue order, the tasks it takes, which are the first pending entries of the queue, and
  stops only with no pending entry left or with a pool that reports no spare capacity.
  What follows the loop leaves the batch queue and the pool as the loop left them.
\<close>

theorem batch_refill_at_start_and_after_completion:
  "(\<not> isBatchProcessingInProgress s \<and> isProjectLoaded s
      \<and> batchEnqueue (nextPage (m_thumbSequence s)) (selectionLeader (m_thumbSequence s))
            ((interactiveCancelAndClear s)\<lparr>m_batchQueue := Some []\<rparr>) = Some (Inr s1)
      \<and> batchTakeForProcessing s1 = Inr (Some t, s2) \<longrightarrow>
      (\<exists>s' s3. startBatchProcessing s = Some (Inr s')
          \<and> refilled [t] s2 s3
          \<and> m_batchQueue s' = m_batchQueue s3
          \<and> m_workerThreadPool s' = m_workerThreadPool s3))
   \<and> (m_batchQueue w = Some q \<and> addr task \<notin> cancelled w
        \<and> \<not> allProcessed (processingFinished task q) \<longrightarrow>
      (\<exists>w' w3. filterResult task result w = Inr w'
          \<and> refilled [] (logCall UpdateUI (markFinished task w)) w3
          \<and> m_batchQueue w' = m_batchQueue w3
          \<and> m_workerThreadPool w' = m_workerThreadPool w3))"
  using startBatchProcessing_returns[of s s1 t s2] filterResult_refills[of w q task result]
  by blast

lemma startBatchProcessing_example:
  "map_option (map_sum id (\<lambda>s. (map addr (executing (m_workerThreadPool s)),
                                  map_option (map entryPage) (m_batchQueue s),
                                  map_option pendingEntries (m_batchQueue s),
                                  hasSpareCapacity (m_workerThreadPool s))))
     (startBatchProcessing projectWindow)
   = Some (Inr ([2, 3], Some [pageB, pageC], Some [], False))"
  by code_simp

lemma filterResult_example:
  "map_sum id (\<lambda>s. (map addr (executing (m_workerThreadPool s)),
                       map_option pendingEntries (m_batchQueue s),
                       hasSpareCapacity (m_workerThreadPool s)))
     (filterResult (deskewTask 0 pageB BATCH) \<lparr>resultFilter = None\<rparr> batchWindow)
   = Inr ([1], Some [], False)"
  by code_simp

theorem batch_refill_at_start_and_after_completion_witness:
  "\<not> isBatchProcessingInProgress projectWindow \<and> isProjectLoaded projectWindow
   \<and> (\<exists>s1 t s2.
          batchEnqueue (nextPage (m_thumbSequence projectWindow))
            (selectionLeader (m_thumbSequence projectWindow))
            ((interactiveCancelAndClear projectWindow)\<lparr>m_batchQueue := Some []\<rparr>)
            = Some (Inr s1)
        \<and> batchTakeForProcessing s1 = Inr (Some t, s2)
        \<and> (\<exists>s' s3. startBatchProcessing projectWindow = Some (Inr s')
              \<and> refilled [t] s2 s3
              \<and> m_batchQueue s' = m_batchQueue s3
              \<and> m_workerThreadPool s' = m_workerThreadPool s3
              \<and> map addr (executing (m_workerThreadPool s')) = [2, 3]
              \<and> \<not> hasSpareCapacity (m_workerThreadPool s')))
   \<and> m_batchQueue batchWindow =
       Some [\<lparr>entryPage = pageB, entryTask = deskewTask 0 pageB BATCH, entryStatus = Processing\<rparr>,
             \<lparr>entryPage = pageC, entryTask = deskewTask 1 pageC BATCH, entryStatus = Pending\<rparr>]
   \<and> addr (deskewTask 0 pageB BATCH) \<notin> cancelled batchWindow
   \<and> \<not> allProcessed (processingFinished (deskewTask 0 pageB BATCH)
         [\<lparr>entryPage = pageB, entryTask = deskewTask 0 pageB BATCH, entryStatus = Processing\<rparr>,
          \<lparr>entryPage = pageC, entryTask = deskewTask 1 pageC BATCH, entryStatus = Pending\<rparr>])
   \<and> (\<exists>s' s3. filterResult (deskewTask 0 pageB BATCH) \<lparr>resultFilter = None\<rparr> batchWindow
                 = Inr s'
          \<and> refilled [] (logCall UpdateUI (markFinished (deskewTask 0 pageB BATCH) batchWindow)) s3
          \<and> m_batchQueue s' = m_batchQueue s3
          \<and> m_workerThreadPool s' = m_workerThreadPool s3
          \<and> map addr (executing (m_workerThreadPool s')) = [1]
          \<and> \<not> hasSpareCapacity (m_workerThreadPool s'))"
proof -
  have g: "\<not> isBatchProcessingInProgress projectWindow" "isProjectLoaded projectWindow"
    by (simp_all add: example_defs isBatchProcessingInProgress_def isProjectLoaded_def)
  from startBatchProcessing_example obtain r where
    r: "startBatchProcessing projectWindow = Some (Inr r)"
    and r1: "map addr (executing (m_workerThreadPool r)) = [2, 3]"
            "\<not> hasSpareCapacity (m_workerThreadPool r)"
    by (cases "startBatchProcessing projectWindow") (auto simp add: map_sum_def split: sum.splits)
  from r g obtain s1 t s2 where
    enq: "batchEnqueue (nextPage (m_thumbSequence projectWindow))
            (selectionLeader (m_thumbSequence projectWindow))
            ((interactiveCancelAndClear projectWindow)\<lparr>m_batchQueue := Some []\<rparr>)
            = Some (Inr s1)"
    and took: "batchTakeForProcessing s1 = Inr (Some t, s2)"
    by (cases rule: startBatchProcessing_taken) blast
  from batch_refill_at_start_and_after_completion[of projectWindow s1 t s2] g enq took
  obtain v v3 where
    v: "startBatchProcessing projectWindow = Some (Inr v)" "refilled [t] s2 v3"
       "m_batchQueue v = m_batchQueue v3" "m_workerThreadPool v = m_workerThreadPool v3"
    by blast
  from v(1) r have "v = r"
    by simp
  with v r1 have inner: "\<exists>s' s3. startBatchProcessing projectWindow = Some (Inr s')
              \<and> refilled [t] s2 s3
              \<and> m_batchQueue s' = m_batchQueue s3
              \<and> m_workerThreadPool s' = m_workerThreadPool s3
              \<and> map addr (executing (m_workerThreadPool s')) = [2, 3]
              \<and> \<not> hasSpareCapacity (m_workerThreadPool s')"
    by (intro exI[of _ v] exI[of _ v3]) simp
  have start: "\<exists>s1 t s2.
          batchEnqueue (nextPage (m_thumbSequence projectWindow))
            (selectionLeader (m_thumbSequence projectWindow))
            ((interactiveCancelAndClear projectWindow)\<lparr>m_batchQueue := Some []\<rparr>)
            = Some (Inr s1)
        \<and> batchTakeForProcessing s1 = Inr (Some t, s2)
        \<and> (\<exists>s' s3. startBatchProcessing projectWindow = Some (Inr s')
              \<and> refilled [t] s2 s3
              \<and> m_batchQueue s' = m_batchQueue s3
              \<and> m_workerThreadPool s' = m_workerThreadPool s3
              \<and> map addr (executing (m_workerThreadPool s')) = [2, 3]
              \<and> \<not> hasSpareCapacity (m_workerThreadPool s'))"
    apply (rule exI[of _ s1], rule exI[of _ t], rule exI[of _ s2])
    using enq took inner apply simp
    done
  have q: "m_batchQueue batchWindow =
       Some [\<lparr>entryPage = pageB, entryTask = deskewTask 0 pageB BATCH, entryStatus = Processing\<rparr>,
             \<lparr>entryPage = pageC, entryTask = deskewTask 1 pageC BATCH, entryStatus = Pending\<rparr>]"
    by (simp add: example_defs)
  have c: "addr (deskewTask 0 pageB BATCH) \<notin> cancelled batchWindow"
    by (simp add: example_defs)
  have a: "\<not> allProcessed (processingFinished (deskewTask 0 pageB BATCH)
         [\<lparr>entryPage = pageB, entryTask = deskewTask 0 pageB BATCH, entryStatus = Processing\<rparr>,
          \<lparr>entryPage = pageC, entryTask = deskewTask 1 pageC BATCH, entryStatus = Pending\<rparr>])"
    by code_simp
  from batch_refill_at_start_and_after_completion
         [of _ _ _ _ batchWindow _ "deskewTask 0 pageB BATCH" "\<lparr>resultFilter = None\<rparr>"]
       q c a
  obtain u u3 where
    u: "filterResult (deskewTask 0 pageB BATCH) \<lparr>resultFilter = None\<rparr> batchWindow = Inr u"
       "refilled [] (logCall UpdateUI (markFinished (deskewTask 0 pageB BATCH) batchWindow)) u3"
       "m_batchQueue u = m_batchQueue u3" "m_workerThreadPool u = m_workerThreadPool u3"
    by blast
  from filterResult_example u(1)
  have "map addr (executing (m_workerThreadPool u)) = [1]"
       "\<not> hasSpareCapacity (m_workerThreadPool u)"
    by simp_all
  with u have compl: "\<exists>s' s3. filterResult (deskewTask 0 pageB BATCH) \<lparr>resultFilter = None\<rparr> batchWindow
                 = Inr s'
          \<and> refilled [] (logCall UpdateUI (markFinished (deskewTask 0 pageB BATCH) batchWindow)) s3
          \<and> m_batchQueue s' = m_batchQueue s3
          \<and> m_workerThreadPool s' = m_workerThreadPool s3
          \<and> map addr (executing (m_workerThreadPool s')) = [1]
          \<and> \<not> hasSpareCapacity (m_workerThreadPool s')"
    by (intro exI[of _ u] exI[of _ u3]) simp
  from g start q c a compl show ?thesis
    by (intro conjI)
qed

text \<open>
  The completion handler of a cancelled task returns at line 1170, before the loop: in
  \<open>cancelledInBatchWindow\<close> the entry of page C stays pending beside a pool with a free
  thread.
\<close>

theorem cancelled_completion_no_refill_counterexample:
  "addr (deskewTask 0 pageB INTERACTIVE) \<in> cancelled cancelledInBatchWindow
   \<and> map_sum id m_batchQueue
        (filterResult (deskewTask 0 pageB INTERACTIVE) \<lparr>resultFilter = None\<rparr>
           cancelledInBatchWindow)
      = Inr (Some [\<lparr>entryPage = pageB, entryTask = deskewTask 2 pageB BATCH,
                      entryStatus = Processing\<rparr>,
                    \<lparr>entryPage = pageC, entryTask = deskewTask 3 pageC BATCH,
                      entryStatus = Pending\<rparr>])
   \<and> pendingEntries
        [\<lparr>entryPage = pageB, entryTask = deskewTask 2 pageB BATCH, entryStatus = Processing\<rparr>,
         \<lparr>entryPage = pageC, entryTask = deskewTask 3 pageC BATCH, entryStatus = Pending\<rparr>]
      = [\<lparr>entryPage = pageC, entryTask = deskewTask 3 pageC BATCH, entryStatus = Pending\<rparr>]
   \<and> map_sum id m_workerThreadPool
        (filterResult (deskewTask 0 pageB INTERACTIVE) \<lparr>resultFilter = None\<rparr>
           cancelledInBatchWindow)
      = Inr \<lparr>numThreads = 2, executing = [deskewTask 2 pageB BATCH]\<rparr>
   \<and> hasSpareCapacity \<lparr>numThreads = 2, executing = [deskewTask 2 pageB BATCH]\<rparr>
   \<and> map_sum id calls
        (filterResult (deskewTask 0 pageB INTERACTIVE) \<lparr>resultFilter = None\<rparr>
           cancelledInBatchWindow)
      = Inr [ProcessingFinished InteractiveQueue 0, ProcessingFinished BatchQueue 0]"
  by code_simp

section \<open>One entry for a page in each queue\<close>








section \<open>The pages a batch run enqueues\<close>


lemma isNull_nullPage [simp]: "isNull nullPage"
  by (simp add: isNull_def nullPage_def)


text \<open>
  A function \<open>nxt\<close> that wraps around, never giving a null page after a page, keeps the
  loop from returning the queue it fills.
\<close>

lemma batchEnqueue_wrapping:
  assumes wrap: "\<And>p. \<not> isNull p \<Longrightarrow> \<not> isNull (nxt p)" and "\<not> isNull page"
  shows "batchEnqueue nxt page s \<noteq> Some (Inr s')"
proof
  assume run: "batchEnqueue nxt page s = Some (Inr s')"
  have "(\<forall>p. \<not> isNull p \<longrightarrow> \<not> isNull (nxt p)) \<longrightarrow> \<not> isNull page \<longrightarrow> (\<forall>s'. y \<noteq> Inr s')"
    if "batchEnqueue nxt page s = Some y" for y
  proof (rule batchEnqueue.raw_induct
           [where P = "\<lambda>nxt page s y. (\<forall>p. \<not> isNull p \<longrightarrow> \<not> isNull (nxt p)) \<longrightarrow>
                          \<not> isNull page \<longrightarrow> (\<forall>s'. y \<noteq> Inr s')", OF _ that])
    fix enq :: "(PageId \<Rightarrow> PageInfo) \<Rightarrow> PageInfo \<Rightarrow> MainWindow \<Rightarrow> (error + MainWindow) option"
      and nxt page s y
    assume IH: "\<And>nxt page s y. enq nxt page s = Some y \<Longrightarrow>
        (\<forall>p. \<not> isNull p \<longrightarrow> \<not> isNull (nxt p)) \<longrightarrow> \<not> isNull page \<longrightarrow> (\<forall>s'. y \<noteq> Inr s')"
    assume body: "(if isNull page then Some (Inr s)
      else case createCompositeTask (nextAddr (loadDefaultSettings page s)) page
                  (m_curFilter (loadDefaultSettings page s)) True
                  (m_debug (loadDefaultSettings page s)) of
             (cs, Inl e) \<Rightarrow> Some (Inl e)
           | (cs, Inr task) \<Rightarrow>
               (case m_batchQueue (loadDefaultSettings page s) of
                  None \<Rightarrow> Some (Inl NullPointer)
                | Some q \<Rightarrow>
                    enq nxt (nxt page)
                      (logCall (AddProcessingTask BatchQueue page (addr task))
                         ((logCalls cs (loadDefaultSettings page s))
                            \<lparr>nextAddr := nextAddr s + 1,
                             m_batchQueue := Some (addProcessingTask page task q)\<rparr>)))) = Some y"
    show "(\<forall>p. \<not> isNull p \<longrightarrow> \<not> isNull (nxt p)) \<longrightarrow> \<not> isNull page \<longrightarrow> (\<forall>s'. y \<noteq> Inr s')"
    proof (intro impI allI notI)
      fix s'
      assume w: "\<forall>p. \<not> isNull p \<longrightarrow> \<not> isNull (nxt p)" and n: "\<not> isNull page" and y: "y = Inr s'"
      obtain cs r where c: "createCompositeTask (nextAddr (loadDefaultSettings page s)) page
          (m_curFilter (loadDefaultSettings page s)) True
          (m_debug (loadDefaultSettings page s)) = (cs, r)"
        by (cases "createCompositeTask (nextAddr (loadDefaultSettings page s)) page
          (m_curFilter (loadDefaultSettings page s)) True
          (m_debug (loadDefaultSettings page s))")
      from body n c y obtain s1 where rec: "enq nxt (nxt page) s1 = Some (Inr s')"
        by (auto split: sum.splits option.splits)
      from w n have "\<not> isNull (nxt page)"
        by simp
      with IH[OF rec] w show False
        by simp
    qed
  qed
  from this[OF run] assms show False
    by simp
qed




end
